theory Spec2Isabelle
  imports Complex_Main "HOL-Library.AList"
begin

section \<open>Strings and numbers of the host language\<close>

text \<open>
  The program is TypeScript. Its strings are modelled as \<^typ>\<open>string\<close>, its array lengths
  and indices as \<^typ>\<open>nat\<close>. Its numbers are IEEE doubles. The numbers of the sequence
  detector are integral (frame numbers read by \<open>parseInt\<close>, and what \<open>+\<close> and \<open>-\<close> make of
  them): they are modelled by the type \<open>integral\<close> below, with the rounding of doubles
  written out. The numbers of a configuration document are only compared by the
  transform and the validator, never computed with: they are exact rationals
  (\<^typ>\<open>rat\<close>) there. The arithmetic of the coordinate renormalizer is a parameter of
  its model.
\<close>

text \<open>\<open>Number.prototype.toString\<close> on an array length or index, as template literals use
  it.\<close>

fun show_nat :: "nat \<Rightarrow> string" where
  "show_nat n =
     (if n < 10 then [''0123456789'' ! n]
      else show_nat (n div 10) @ [''0123456789'' ! (n mod 10)])"

declare show_nat.simps [simp del]

text \<open>\<open>Array.prototype.join\<close> on strings.\<close>

fun join :: "string \<Rightarrow> string list \<Rightarrow> string" where
  "join sep [] = []"
| "join sep [x] = x"
| "join sep (x # y # ys) = x @ sep @ join sep (y # ys)"

text \<open>\<open>String.prototype.padStart\<close> with a one-character filler.\<close>

definition padStart :: "string \<Rightarrow> nat \<Rightarrow> char \<Rightarrow> string" where
  "padStart s n c = replicate (n - length s) c @ s"

subsection \<open>Integral doubles\<close>

text \<open>
  A double whose value is an integer, or one of the two infinities. \<open>Fin n\<close> stands for a
  double only when \<open>n\<close> is one: an integer of at most 53 significant bits, below
  \<open>2 ^ 1024\<close> in magnitude. The operations below return such values. The two zeros of
  doubles are one value here (they are equal under \<open>===\<close>, as keys of a \<open>Set\<close> and as
  text). NaN is no value of the type: an operation that can give NaN returns an option,
  with \<open>None\<close> for NaN.
\<close>

datatype integral = NegInf | Fin int | PosInf

text \<open>The order of \<open><\<close> and \<open><=\<close> on these numbers.\<close>

instantiation integral :: linorder
begin

fun less_eq_integral :: "integral \<Rightarrow> integral \<Rightarrow> bool" where
  "less_eq_integral NegInf b = True"
| "less_eq_integral (Fin x) NegInf = False"
| "less_eq_integral (Fin x) (Fin y) = (x \<le> y)"
| "less_eq_integral (Fin x) PosInf = True"
| "less_eq_integral PosInf PosInf = True"
| "less_eq_integral PosInf b = False"

definition less_integral :: "integral \<Rightarrow> integral \<Rightarrow> bool" where
  "less_integral a b = (a \<le> b \<and> \<not> b \<le> a)"

instance
proof
  fix x y z :: integral
  show "(x < y) = (x \<le> y \<and> \<not> y \<le> x)" by (simp add: less_integral_def)
  show "x \<le> x" by (cases x) simp_all
  show "x \<le> y \<Longrightarrow> y \<le> z \<Longrightarrow> x \<le> z" by (cases x; cases y; cases z) simp_all
  show "x \<le> y \<Longrightarrow> y \<le> x \<Longrightarrow> x = y" by (cases x; cases y) simp_all
  show "x \<le> y \<or> y \<le> x" by (cases x; cases y) auto
qed

end

text \<open>The number of binary digits of a positive integer.\<close>

function bitLength :: "int \<Rightarrow> nat" where
  "bitLength n = (if n \<le> 0 then 0 else Suc (bitLength (n div 2)))"
  by pat_completeness auto
termination by (relation "measure nat") auto

declare bitLength.simps [simp del]

text \<open>
  The double nearest to a non-negative integer, ties to the even significand: the
  integer itself when it has at most 53 bits; else its leading 53 bits, rounded on the
  rest. \<open>None\<close> is the overflow, from \<open>2 ^ 1024 - 2 ^ 970\<close> on.
\<close>

definition roundMagnitude :: "int \<Rightarrow> int option" where
  "roundMagnitude n =
     (if bitLength n \<le> 53 then Some n
      else
        let e = bitLength n - 53;
            q = n div 2 ^ e;
            r = n mod 2 ^ e;
            m = (if 2 * r > 2 ^ e \<or> (2 * r = 2 ^ e \<and> odd q) then q + 1 else q) * 2 ^ e
        in if bitLength m > 1024 then None else Some m)"

definition toDouble :: "int \<Rightarrow> integral" where
  "toDouble n =
     (if n < 0 then (case roundMagnitude (- n) of Some m \<Rightarrow> Fin (- m) | None \<Rightarrow> NegInf)
      else (case roundMagnitude n of Some m \<Rightarrow> Fin m | None \<Rightarrow> PosInf))"

text \<open>\<open>a + b\<close> and \<open>a - b\<close> on these numbers: the exact result, rounded. \<open>None\<close> is NaN.\<close>

fun plusNumber :: "integral \<Rightarrow> integral \<Rightarrow> integral option" where
  "plusNumber (Fin a) (Fin b) = Some (toDouble (a + b))"
| "plusNumber PosInf NegInf = None"
| "plusNumber NegInf PosInf = None"
| "plusNumber PosInf b = Some PosInf"
| "plusNumber NegInf b = Some NegInf"
| "plusNumber (Fin a) b = Some b"

fun negate :: "integral \<Rightarrow> integral" where
  "negate (Fin a) = Fin (- a)"
| "negate PosInf = NegInf"
| "negate NegInf = PosInf"

definition minusNumber :: "integral \<Rightarrow> integral \<Rightarrow> integral option" where
  "minusNumber a b = plusNumber a (negate b)"

text \<open>\<open>i + 1\<close> and \<open>i++\<close>, which never give NaN.\<close>

definition plusOne :: "integral \<Rightarrow> integral" where
  "plusOne i = (case i of Fin n \<Rightarrow> toDouble (n + 1) | _ \<Rightarrow> i)"

text \<open>
  \<open>Number.prototype.toString\<close>. The decimal digits of a non-negative integer first.
\<close>

function decimal :: "int \<Rightarrow> string" where
  "decimal n =
     (if n < 10 then [''0123456789'' ! nat n]
      else decimal (n div 10) @ [''0123456789'' ! nat (n mod 10)])"
  by pat_completeness auto
termination by (relation "measure nat") auto

declare decimal.simps [simp del]

text \<open>
  The text of a double is the shortest decimal that reads back as the same double, the
  nearest to it when there are several, and the one with the even last digit among two
  equally near. For a double \<open>n\<close> with \<open>e\<close> decimal digits, \<open>shortestAt n e k\<close> looks for
  such a decimal with \<open>k\<close> significant digits: the two multiples of \<open>10 ^ (e - k)\<close> around
  \<open>n\<close> are the only candidates.
\<close>

definition shortestAt :: "int \<Rightarrow> nat \<Rightarrow> nat \<Rightarrow> int option" where
  "shortestAt n e k =
     (let p = 10 ^ (e - k);
          lo = (n div p) * p;
          hi = lo + p;
          okLo = (toDouble lo = Fin n);
          okHi = (toDouble hi = Fin n)
      in if okLo \<and> okHi
         then Some (if n - lo < hi - n \<or> (n - lo = hi - n \<and> even (lo div p)) then lo else hi)
         else if okLo then Some lo
         else if okHi then Some hi
         else None)"

definition shortestDecimal :: "int \<Rightarrow> int" where
  "shortestDecimal n =
     (let e = length (decimal n) in
      case List.map_filter (shortestAt n e) [1 ..< Suc e] of
        c # _ \<Rightarrow> c
      | [] \<Rightarrow> n)"

text \<open>Up to 21 digits the decimal is written out; beyond, in exponent notation.\<close>

definition writeDecimal :: "int \<Rightarrow> string" where
  "writeDecimal c =
     (let ds = decimal c in
      if length ds \<le> 21 then ds
      else
        let significant = rev (dropWhile (\<lambda>d. d = CHR ''0'') (rev ds)) in
        (if length significant = 1 then significant
         else hd significant # CHR ''.'' # tl significant)
        @ ''e+'' @ show_nat (length ds - 1))"

definition numberToString :: "integral \<Rightarrow> string" where
  "numberToString v =
     (case v of
        Fin n \<Rightarrow>
          if n < 0 then CHR ''-'' # writeDecimal (shortestDecimal (- n))
          else writeDecimal (shortestDecimal n)
      | PosInf \<Rightarrow> ''Infinity''
      | NegInf \<Rightarrow> ''-Infinity'')"

text \<open>The text of a number that may be NaN.\<close>

definition resultToString :: "integral option \<Rightarrow> string" where
  "resultToString r = (case r of None \<Rightarrow> ''NaN'' | Some v \<Rightarrow> numberToString v)"

section \<open>Sequence detector\<close>

subsection \<open>The filename pattern\<close>

text \<open>
  \<open>extractFrameInfo\<close> matches the file name against
  \<^verbatim>\<open>/^(.+?)_?(\d+)\.([^.]+)$/\<close>. The matcher below follows the backtracking order of
  that expression: the first group is lazy, so it is grown one character at a time
  (never over a line terminator) until the rest \<^verbatim>\<open>_?(\d+)\.([^.]+)$\<close> matches.
\<close>

definition isDigit :: "char \<Rightarrow> bool" where
  "isDigit c = (c \<in> set ''0123456789'')"

text \<open>What \<^verbatim>\<open>.\<close> does not match: line feed and carriage return (the two Unicode line
  separators are no characters of \<^typ>\<open>char\<close>).\<close>

definition isLineTerminator :: "char \<Rightarrow> bool" where
  "isLineTerminator c = (c = CHR 0x0A \<or> c = CHR 0x0D)"

text \<open>\<^verbatim>\<open>(\d+)\.([^.]+)$\<close>: the digits, then a dot, then an extension with no dot in it.\<close>

definition matchNumberExt :: "string \<Rightarrow> (string \<times> string) option" where
  "matchNumberExt s =
     (let ds = takeWhile isDigit s in
      if ds = [] then None
      else (case dropWhile isDigit s of
              [] \<Rightarrow> None
            | c # ext \<Rightarrow>
                if c = CHR ''.'' \<and> ext \<noteq> [] \<and> CHR ''.'' \<notin> set ext then Some (ds, ext)
                else None))"

text \<open>\<^verbatim>\<open>_?\<close> is greedy: the underscore is taken when it is there, and given back if
  the rest then fails.\<close>

definition matchTail :: "string \<Rightarrow> (string \<times> string) option" where
  "matchTail s =
     (case s of
        [] \<Rightarrow> None
      | c # cs \<Rightarrow>
          if c = CHR ''_'' then
            (case matchNumberExt cs of Some r \<Rightarrow> Some r | None \<Rightarrow> matchNumberExt s)
          else matchNumberExt s)"

fun matchLazyBase :: "string \<Rightarrow> string \<Rightarrow> (string \<times> string \<times> string) option" where
  "matchLazyBase acc [] = None"
| "matchLazyBase acc (c # cs) =
     (if isLineTerminator c then None
      else (case matchTail cs of
              Some (ds, ext) \<Rightarrow> Some (acc @ [c], ds, ext)
            | None \<Rightarrow> matchLazyBase (acc @ [c]) cs))"

text \<open>
  \<open>parseInt(numberStr, 10)\<close> on a string of decimal digits: the double nearest to the
  integer the digits write, \<open>Infinity\<close> when there is none. (The language lets an engine
  read the digits after the twentieth as zeros; the engines in use round the whole
  string, as here.)
\<close>

definition digitValue :: "char \<Rightarrow> nat" where
  "digitValue c = length (takeWhile (\<lambda>d. d \<noteq> c) ''0123456789'')"

definition digitsValue :: "string \<Rightarrow> int" where
  "digitsValue s = foldl (\<lambda>acc c. 10 * acc + int (digitValue c)) 0 s"

definition parseInt :: "string \<Rightarrow> integral" where
  "parseInt s = toDouble (digitsValue s)"

record frame_info =
  base :: string
  number :: integral
  padding :: nat
  extension :: string

definition extractFrameInfo :: "string \<Rightarrow> frame_info option" where
  "extractFrameInfo filename =
     (case matchLazyBase [] filename of
        None \<Rightarrow> None
      | Some (b, numberStr, ext) \<Rightarrow>
          Some \<lparr> base = b @ (if CHR ''_'' \<in> set filename then ''_'' else ''''),
                 number = parseInt numberStr,
                 padding = length numberStr,
                 extension = ext \<rparr>)"

subsection \<open>Detection\<close>

text \<open>A \<open>File\<close>: its \<open>name\<close> and its \<open>size\<close> in bytes. The detector reads the name only.\<close>

record jsfile =
  name :: string
  byteSize :: nat

record sequence_info =
  baseName :: string
  pattern :: string
  startFrame :: integral
  endFrame :: integral
  padding :: nat
  gaps :: "integral list"
  files :: "jsfile list"

type_synonym frame_item = "jsfile \<times> frame_info"

text \<open>The \<open>map\<close> and \<open>filter\<close> that keep the files whose name matches.\<close>

definition frameInfosOf :: "jsfile list \<Rightarrow> frame_item list" where
  "frameInfosOf fs =
     List.map_filter
       (\<lambda>f. case extractFrameInfo (name f) of None \<Rightarrow> None | Some i \<Rightarrow> Some (f, i)) fs"

text \<open>
  The \<open>Map\<close> from the key \<^verbatim>\<open>`${base}_${extension}`\<close> to the group, in insertion order:
  a new key goes to the end, an old key keeps its place.
\<close>

definition groupKey :: "frame_info \<Rightarrow> string" where
  "groupKey i = base i @ ''_'' @ extension i"

definition groupPush :: "(string \<times> frame_item list) list \<Rightarrow> frame_item \<Rightarrow> (string \<times> frame_item list) list" where
  "groupPush groups item =
     (let key = groupKey (snd item) in
      case map_of groups key of
        None \<Rightarrow> groups @ [(key, [item])]
      | Some g \<Rightarrow> AList.update key (g @ [item]) groups)"

definition groupFrames :: "frame_item list \<Rightarrow> (string \<times> frame_item list) list" where
  "groupFrames items = foldl groupPush [] items"

text \<open>The largest group; the first one met wins a tie (\<open>>\<close> is strict).\<close>

definition largestOf :: "(string \<times> frame_item list) list \<Rightarrow> frame_item list" where
  "largestOf groups =
     foldl (\<lambda>largestGroup g. if length g > length largestGroup then g else largestGroup) []
       (map snd groups)"

text \<open>
  How a call of the detector ends, when it ends: it returns, or \<open>gaps.push\<close> throws a
  \<open>RangeError\<close>, the array being at the greatest length an array can have,
  \<open>2 ^ 32 - 1\<close>.
\<close>

datatype 'a ending = Returned 'a | ThrewRangeError

text \<open>
  The loop \<^verbatim>\<open>for (let i = first + 1; i < last; i++)\<close> over the set of frame numbers.
  From \<open>2 ^ 53\<close> on \<open>i++\<close> may leave \<open>i\<close> as it is, and the loop then runs forever: the
  result \<open>None\<close> is the run that does not end.
\<close>

partial_function (option) gapLoop ::
  "integral list \<Rightarrow> integral \<Rightarrow> integral \<Rightarrow> integral list \<Rightarrow> integral list ending option" where
  "gapLoop frameNumbers lst i found =
     (if i < lst
      then (if i \<in> set frameNumbers then gapLoop frameNumbers lst (plusOne i) found
            else if int (length found) = 4294967295 then Some ThrewRangeError
            else gapLoop frameNumbers lst (plusOne i) (found @ [i]))
      else Some (Returned found))"

declare gapLoop.simps [code]

definition findGaps :: "integral \<Rightarrow> integral \<Rightarrow> integral list \<Rightarrow> integral list ending option" where
  "findGaps first lst frameNumbers = gapLoop frameNumbers lst (plusOne first) []"

text \<open>The most common padding: counts in a \<open>Map\<close> in insertion order, then the first
  padding with the greatest count.\<close>

definition countPadding :: "(nat \<times> nat) list \<Rightarrow> nat \<Rightarrow> (nat \<times> nat) list" where
  "countPadding counts p =
     AList.update p ((case map_of counts p of None \<Rightarrow> 0 | Some c \<Rightarrow> c) + 1) counts"

definition commonPadding :: "frame_item list \<Rightarrow> nat" where
  "commonPadding items =
     fst (foldl (\<lambda>(maxPadding, maxCount) (p, c).
                   if c > maxCount then (p, c) else (maxPadding, maxCount))
            (0, 0)
            (foldl countPadding [] (map (\<lambda>it. frame_info.padding (snd it)) items)))"

text \<open>\<^verbatim>\<open>base.replace(/_$/, '')\<close>.\<close>

definition stripUnderscore :: "string \<Rightarrow> string" where
  "stripUnderscore s = (if s \<noteq> [] \<and> last s = CHR ''_'' then butlast s else s)"

text \<open>
  \<open>detectSequence\<close>. The result is \<open>None\<close> when the call does not end,
  \<open>Some (Returned None)\<close> when it returns \<open>null\<close>, \<open>Some (Returned (Some s))\<close> when it
  returns the sequence \<open>s\<close>, and \<open>Some ThrewRangeError\<close> when the list of the gaps cannot
  grow. The comparison function of the sort is \<open>a.info.number - b.info.number\<close>, whose
  sign is the order of \<^typ>\<open>integral\<close> (two infinities give NaN, which the sort takes for
  equal); the sort is stable. The memory of the machine is no bound in the model.
\<close>

definition detectSequence :: "jsfile list \<Rightarrow> sequence_info option ending option" where
  "detectSequence fs =
     (if length fs < 2 then Some (Returned None)
      else
        let frameInfos = frameInfosOf fs in
        if length frameInfos < 2 then Some (Returned None)
        else
          let largestGroup = largestOf (groupFrames frameInfos) in
          if length largestGroup < 2 then Some (Returned None)
          else
            let sortedGroup = sort_key (\<lambda>it. number (snd it)) largestGroup;
                firstInfo = snd (hd sortedGroup);
                lastInfo = snd (last sortedGroup)
            in case findGaps (number firstInfo) (number lastInfo)
                      (map (\<lambda>it. number (snd it)) sortedGroup) of
                 None \<Rightarrow> None
               | Some ThrewRangeError \<Rightarrow> Some ThrewRangeError
               | Some (Returned foundGaps) \<Rightarrow>
                   let maxPadding = commonPadding sortedGroup;
                       startStr = padStart (numberToString (number firstInfo)) maxPadding CHR ''0'';
                       endStr = padStart (numberToString (number lastInfo)) maxPadding CHR ''0''
                   in Some (Returned (Some
                        \<lparr> baseName = stripUnderscore (base firstInfo),
                          pattern = base firstInfo @ ''{'' @ startStr @ ''-'' @ endStr
                                    @ ''}.'' @ extension firstInfo,
                          startFrame = number firstInfo,
                          endFrame = number lastInfo,
                          padding = maxPadding,
                          gaps = foundGaps,
                          files = map fst sortedGroup \<rparr>)))"

subsection \<open>Validation of a detected sequence\<close>

record check_result =
  valid :: bool

record sequence_check = check_result +
  warnings :: "string list"

text \<open>\<open>actualFrames < expectedFrames\<close>, which is false when \<open>expectedFrames\<close> is NaN.\<close>

definition lessThanResult :: "nat \<Rightarrow> integral option \<Rightarrow> bool" where
  "lessThanResult n r = (case r of None \<Rightarrow> False | Some v \<Rightarrow> Fin (int n) < v)"

definition validateSequence :: "sequence_info \<Rightarrow> sequence_check" where
  "validateSequence s =
     (let w1 = (if length (gaps s) > 0
                then [''Missing frames: '' @ join '', '' (map numberToString (gaps s))
                      @ '' ('' @ show_nat (length (gaps s)) @ '' gaps)'']
                else []);
          expectedFrames = (case minusNumber (endFrame s) (startFrame s) of
                              None \<Rightarrow> None
                            | Some d \<Rightarrow> plusNumber d (Fin 1));
          actualFrames = length (files s);
          w2 = (if lessThanResult actualFrames expectedFrames
                then [''Expected '' @ resultToString expectedFrames @ '' frames, found ''
                      @ show_nat actualFrames]
                else []);
          w3 = (if actualFrames < 2 then [''Sequence has less than 2 frames''] else []);
          ws = w1 @ w2 @ w3
      in \<lparr> valid = (length ws = 0), warnings = ws \<rparr>)"

subsection \<open>Groups of files\<close>







section \<open>Values of the configuration documents\<close>

text \<open>
  What the YAML codec parses and what the validator walks: values read by their content
  (nothing in these functions depends on which object is which). An object is the list
  of its own properties in enumeration order.
\<close>

datatype jsval =
    JUndefined
  | JNull
  | JBool bool
  | JNum rat
  | JStr string
  | JArr "jsval list"
  | JObj "(string \<times> jsval) list"

datatype jstype = TyUndefined | TyObject | TyBoolean | TyNumber | TyString

fun typeof :: "jsval \<Rightarrow> jstype" where
  "typeof JUndefined = TyUndefined"
| "typeof JNull = TyObject"
| "typeof (JBool b) = TyBoolean"
| "typeof (JNum n) = TyNumber"
| "typeof (JStr s) = TyString"
| "typeof (JArr xs) = TyObject"
| "typeof (JObj fs) = TyObject"

text \<open>
  The property read \<open>v.k\<close> on a value other than \<open>null\<close> and \<open>undefined\<close> (on those it
  throws, which the callers below guard against or model). The names read in this
  program (\<open>type\<close>, \<open>position\<close>, \<open>x\<close>, \<open>y\<close>, \<open>particle\<close>, \<open>emissionRate\<close>, \<open>system\<close>, ...)
  are properties of no array, string, number or boolean, so only an object has them.
\<close>

fun getProp :: "jsval \<Rightarrow> string \<Rightarrow> jsval" where
  "getProp (JObj fs) k = (case map_of fs k of Some v \<Rightarrow> v | None \<Rightarrow> JUndefined)"
| "getProp v k = JUndefined"

text \<open>The optional read \<open>v?.k\<close>.\<close>

definition optProp :: "jsval \<Rightarrow> string \<Rightarrow> jsval" where
  "optProp v k = (if v = JUndefined \<or> v = JNull then JUndefined else getProp v k)"

text \<open>What \<open>!v\<close> negates.\<close>

fun truthy :: "jsval \<Rightarrow> bool" where
  "truthy JUndefined = False"
| "truthy JNull = False"
| "truthy (JBool b) = b"
| "truthy (JNum n) = (n \<noteq> 0)"
| "truthy (JStr s) = (s \<noteq> [])"
| "truthy (JArr xs) = True"
| "truthy (JObj fs) = True"

section \<open>Config transform\<close>

record system_config =
  maxParticles :: rat
  autoStart :: bool

record editor_config =
  system :: system_config
  emitters :: "jsval list"

definition isRecord :: "jsval \<Rightarrow> bool" where
  "isRecord v = (typeof v = TyObject \<and> v \<noteq> JNull)"

definition isEmitterConfig :: "jsval \<Rightarrow> bool" where
  "isEmitterConfig v =
     (if \<not> isRecord v then False
      else if typeof (getProp v ''type'') \<noteq> TyString then False
      else
        let rateRequired =
              (getProp v ''type'' \<noteq> JStr ''burst'' \<and> getProp v ''type'' \<noteq> JStr ''triggered'')
        in
          if rateRequired \<and> typeof (getProp v ''emissionRate'') \<noteq> TyNumber then False
          else if \<not> isRecord (getProp v ''position'') then False
          else if typeof (getProp (getProp v ''position'') ''x'') \<noteq> TyNumber
                  \<or> typeof (getProp (getProp v ''position'') ''y'') \<noteq> TyNumber then False
          else isRecord (getProp v ''particle'')
               \<and> typeof (getProp (getProp v ''particle'') ''type'') = TyString)"

record parsed_yaml_config =
  parsed_system :: jsval
  parsed_emitters :: jsval

text \<open>An absent property of the result is \<open>undefined\<close> when read.\<close>

definition toParsedYamlConfig :: "jsval \<Rightarrow> parsed_yaml_config" where
  "toParsedYamlConfig v =
     (if \<not> isRecord v then \<lparr> parsed_system = JUndefined, parsed_emitters = JUndefined \<rparr>
      else \<lparr> parsed_system =
               (if isRecord (getProp v ''system'') then getProp v ''system'' else JUndefined),
             parsed_emitters = getProp v ''emitters'' \<rparr>)"

text \<open>
  The codec is the library \<open>js-yaml\<close>, which is not part of the repository: \<open>load\<close> and
  \<open>dump\<close> are parameters of the two functions that call them. \<open>load\<close> returns the
  parsed value or throws; what it throws is an \<open>Error\<close> with a message, or something
  else.
\<close>

datatype thrown = Error string | NotAnError

type_synonym loader = "string \<Rightarrow> thrown + jsval"







definition yamlToEditorConfig :: "loader \<Rightarrow> string \<Rightarrow> thrown + editor_config" where
  "yamlToEditorConfig load yaml =
     (case load yaml of
        Inl err \<Rightarrow>
          Inl (Error (''Failed to parse YAML: ''
                      @ (case err of Error msg \<Rightarrow> msg | NotAnError \<Rightarrow> ''Unknown YAML parse error'')))
      | Inr v \<Rightarrow>
          let parsed = toParsedYamlConfig v in
          Inr \<lparr> system =
                  \<lparr> maxParticles =
                      (case optProp (parsed_system parsed) ''maxParticles'' of
                         JNum n \<Rightarrow> n | _ \<Rightarrow> 1000),
                    autoStart =
                      (case optProp (parsed_system parsed) ''autoStart'' of
                         JBool b \<Rightarrow> b | _ \<Rightarrow> True) \<rparr>,
                emitters =
                  (case parsed_emitters parsed of
                     JArr es \<Rightarrow> filter isEmitterConfig es | _ \<Rightarrow> []) \<rparr>)"

section \<open>Config validator\<close>

text \<open>
  \<open>validateEditorConfig\<close> guards against a config that is not of its declared type:
  \<open>system\<close> may be missing and \<open>emitters\<close> may be any value. An emitter is read as it
  comes; reading a property of an emitter that is \<open>null\<close> or \<open>undefined\<close> throws a
  \<open>TypeError\<close>.
\<close>

record received_config =
  received_system :: "system_config option"
  received_emitters :: jsval

datatype error = TypeError

record config_check = check_result +
  errors :: "string list"

definition emitterLabel :: "nat \<Rightarrow> string" where
  "emitterLabel index = ''Emitter '' @ show_nat index @ '': ''"

definition validateEmitter :: "nat \<Rightarrow> jsval \<Rightarrow> error + string list" where
  "validateEmitter index emitter =
     (if emitter = JUndefined \<or> emitter = JNull then Inl TypeError
      else
        let position = getProp emitter ''position'';
            rateRequired = (getProp emitter ''type'' \<noteq> JStr ''burst''
                            \<and> getProp emitter ''type'' \<noteq> JStr ''triggered'');
            particle = getProp emitter ''particle''
        in Inr
          ((if \<not> truthy (getProp emitter ''type'')
            then [emitterLabel index @ ''Missing type''] else [])
           @ (if \<not> truthy position \<or> typeof (getProp position ''x'') \<noteq> TyNumber
                 \<or> typeof (getProp position ''y'') \<noteq> TyNumber
              then [emitterLabel index @ ''Invalid position''] else [])
           @ (if rateRequired
                 \<and> (case getProp emitter ''emissionRate'' of JNum r \<Rightarrow> r < 0 | _ \<Rightarrow> True)
              then [emitterLabel index @ ''Invalid emissionRate''] else [])
           @ (if getProp emitter ''type'' = JStr ''burst''
                 \<and> (case getProp emitter ''burstCount'' of JNum b \<Rightarrow> b < 1 | _ \<Rightarrow> True)
              then [emitterLabel index @ ''burstCount must be a number >= 1''] else [])
           @ (if \<not> truthy particle
              then [emitterLabel index @ ''Missing particle configuration'']
              else (if \<not> truthy (getProp particle ''type'')
                    then [emitterLabel index @ ''Missing particle type''] else [])
                   @ (if \<not> truthy (getProp particle ''lifetime'')
                      then [emitterLabel index @ ''Missing particle lifetime''] else []))))"

text \<open>The \<open>forEach\<close>: the emitters in order from the given index, stopping at a throw.\<close>

fun validateEmitters :: "nat \<Rightarrow> jsval list \<Rightarrow> error + string list" where
  "validateEmitters index [] = Inr []"
| "validateEmitters index (emitter # rest) =
     (case validateEmitter index emitter of
        Inl e \<Rightarrow> Inl e
      | Inr es \<Rightarrow>
          (case validateEmitters (Suc index) rest of
             Inl e \<Rightarrow> Inl e
           | Inr es' \<Rightarrow> Inr (es @ es')))"

definition validateEditorConfig :: "received_config \<Rightarrow> error + config_check" where
  "validateEditorConfig config =
     (let systemErrors =
            (case received_system config of
               None \<Rightarrow> [''Missing system configuration'']
             | Some sys \<Rightarrow>
                 if maxParticles sys < 1 \<or> maxParticles sys > 10000
                 then [''maxParticles must be between 1 and 10000''] else [])
      in case (case received_emitters config of
                 JArr es \<Rightarrow> validateEmitters 0 es
               | _ \<Rightarrow> Inr [''Emitters must be an array'']) of
           Inl e \<Rightarrow> Inl e
         | Inr emitterErrors \<Rightarrow>
             Inr \<lparr> valid = (length (systemErrors @ emitterErrors) = 0),
                   errors = systemErrors @ emitterErrors \<rparr>)"

subsection \<open>The import rules in the words of the specification\<close>

text \<open>
  The specification speaks of the parsed value of \<open>system.maxParticles\<close>, of
  \<open>position.x\<close> and so on: the value at a path of property names in a document, which is
  \<open>undefined\<close> as soon as one step is absent.
\<close>

fun valueAt :: "jsval \<Rightarrow> string list \<Rightarrow> jsval" where
  "valueAt v [] = v"
| "valueAt v (k # ks) = valueAt (getProp v k) ks"

text \<open>
  The minimal shape check as the specification words it: \<open>type\<close> is a string,
  \<open>position.x\<close> and \<open>position.y\<close> are numbers, \<open>particle.type\<close> is a string and, for
  types other than burst and triggered, \<open>emissionRate\<close> is a number.
\<close>

definition shapeCheck_spec :: "jsval \<Rightarrow> bool" where
  "shapeCheck_spec e =
     (typeof (valueAt e [''type'']) = TyString
      \<and> typeof (valueAt e [''position'', ''x'']) = TyNumber
      \<and> typeof (valueAt e [''position'', ''y'']) = TyNumber
      \<and> typeof (valueAt e [''particle'', ''type'']) = TyString
      \<and> (valueAt e [''type''] \<noteq> JStr ''burst'' \<and> valueAt e [''type''] \<noteq> JStr ''triggered''
           \<longrightarrow> typeof (valueAt e [''emissionRate'']) = TyNumber))"

subsection \<open>Example documents\<close>

text \<open>The point emitter of the import test, and the same record without its particle.\<close>

definition pointEmitter :: jsval where
  "pointEmitter =
     JObj [(''type'', JStr ''point''),
           (''position'', JObj [(''x'', JNum 300), (''y'', JNum 250)]),
           (''emissionRate'', JNum 60),
           (''particle'',
            JObj [(''type'', JStr ''sprite''), (''texture'', JStr ''default''),
                  (''lifetime'', JNum 2), (''behaviors'', JArr [])])]"

definition noParticleEmitter :: jsval where
  "noParticleEmitter =
     JObj [(''type'', JStr ''point''),
           (''position'', JObj [(''x'', JNum 300), (''y'', JNum 250)]),
           (''emissionRate'', JNum 60)]"

text \<open>A loader that parses the texts of a table to their documents and fails on any
  other text; a dumper that writes the documents of a table as their texts.\<close>

definition loadTable :: "(string \<times> jsval) list \<Rightarrow> loader" where
  "loadTable table text =
     (case map_of table text of Some doc \<Rightarrow> Inr doc | None \<Rightarrow> Inl (Error ''unexpected text''))"


definition importedText :: string where
  "importedText = ''system: {maxParticles: 1500, autoStart: false}, emitters: [point, no particle]''"

definition importedDocument :: jsval where
  "importedDocument =
     JObj [(''system'', JObj [(''maxParticles'', JNum 1500), (''autoStart'', JBool False)]),
           (''emitters'', JArr [pointEmitter, noParticleEmitter])]"



subsection \<open>What the validator reports for one emitter, and example configs\<close>

text \<open>The messages of an emitter that can be read (the empty list where reading it throws).\<close>

definition emitterErrors :: "nat \<Rightarrow> jsval \<Rightarrow> string list" where
  "emitterErrors i e = (case validateEmitter i e of Inr es \<Rightarrow> es | Inl _ \<Rightarrow> [])"

text \<open>The configs of the validator's tests: a burst emitter with and without its
  \<open>burstCount\<close>, and a triggered emitter, none with an \<open>emissionRate\<close>.\<close>

definition testParticle :: jsval where
  "testParticle =
     JObj [(''type'', JStr ''sprite''), (''texture'', JStr ''default''),
           (''lifetime'', JNum 1), (''behaviors'', JArr [])]"

definition testConfig :: "jsval \<Rightarrow> received_config" where
  "testConfig emitter =
     \<lparr> received_system = Some \<lparr> maxParticles = 1000, autoStart = True \<rparr>,
       received_emitters = JArr [emitter] \<rparr>"

definition burstEmitter :: jsval where
  "burstEmitter =
     JObj [(''type'', JStr ''burst''),
           (''position'', JObj [(''x'', JNum 400), (''y'', JNum 300)]),
           (''burstCount'', JNum 10),
           (''particle'', testParticle)]"

definition burstEmitterNoCount :: jsval where
  "burstEmitterNoCount =
     JObj [(''type'', JStr ''burst''),
           (''position'', JObj [(''x'', JNum 400), (''y'', JNum 300)]),
           (''particle'', testParticle)]"

definition triggeredEmitter :: jsval where
  "triggeredEmitter =
     JObj [(''type'', JStr ''triggered''),
           (''position'', JObj [(''x'', JNum 400), (''y'', JNum 300)]),
           (''particle'', testParticle)]"

section \<open>Coordinate renormalizer\<close>

subsection \<open>Objects in a store\<close>

text \<open>
  \<open>recentreEmittersOnResize\<close> returns its argument itself in some cases and fresh objects
  in others, and it assigns to properties of objects. Which object is which matters
  here, so its values live in a store: a value is a primitive or a reference to a cell,
  a cell is an object (its own properties in order) or an array, and the store is the
  list of the cells allocated so far, the address of a cell being its index. The objects
  hold data only, as the emitters of a configuration do: no functions, no accessors.
  The numbers are those of the runtime, of a type \<open>'n\<close> that the model leaves open.
\<close>

datatype 'n rval = RUndefined | RNull | RBool bool | RNum 'n | RStr string | RRef nat

datatype 'n cell = Obj "(string \<times> 'n rval) list" | Arr "'n rval list"

type_synonym 'n store = "'n cell list"

text \<open>How a call ends: it returns a value or it throws.\<close>

datatype 'a outcome = Value 'a | Throws error

text \<open>
  The arithmetic and the coercions of the language are those of the runtime, and
  parameters of the model. On numbers, \<open>numPlus a b\<close> is \<open>a + b\<close>, \<open>numMinus a b\<close> is
  \<open>a - b\<close>, \<open>numHalf a\<close> is \<open>a / 2\<close> and \<open>numIsZero a\<close> is \<open>a === 0\<close>: in JavaScript the
  operations of IEEE doubles, with their rounding, their infinities and their NaN. For a
  value \<open>v\<close> that is not a number, \<open>coercePlus h v d\<close> is \<open>v + d\<close>: NaN or a number when
  \<open>v\<close> is \<open>undefined\<close>, \<open>null\<close> or a boolean, a concatenated string when \<open>v\<close> is a string,
  and for an object or an array what its conversion to a primitive gives, which may also
  throw. For an object or an array \<open>v\<close>, \<open>coerceKey h v\<close> is the property key \<open>v\<close> stands
  for: its conversion to a string, which may throw. The conversions read the store and
  leave it as it is; they run no code of the program, the objects holding data only.
\<close>

record 'n runtime =
  numPlus :: "'n \<Rightarrow> 'n \<Rightarrow> 'n"
  numMinus :: "'n \<Rightarrow> 'n \<Rightarrow> 'n"
  numHalf :: "'n \<Rightarrow> 'n"
  numIsZero :: "'n \<Rightarrow> bool"
  coercePlus :: "'n cell list \<Rightarrow> 'n rval \<Rightarrow> 'n \<Rightarrow> 'n rval outcome"
  coerceKey :: "'n cell list \<Rightarrow> 'n rval \<Rightarrow> string outcome"

definition alloc :: "'n store \<Rightarrow> 'n cell \<Rightarrow> 'n store \<times> nat" where
  "alloc h c = (h @ [c], length h)"

fun cellOf :: "'n store \<Rightarrow> 'n rval \<Rightarrow> 'n cell option" where
  "cellOf h (RRef a) = (if a < length h then Some (h ! a) else None)"
| "cellOf h v = None"

text \<open>The property read \<open>v[k]\<close> on a value other than \<open>null\<close> and \<open>undefined\<close>, for the names
  this function reads (none of them is a property of an array or of a primitive, and
  none is inherited by an object).\<close>

definition propOf :: "'n store \<Rightarrow> 'n rval \<Rightarrow> string \<Rightarrow> 'n rval" where
  "propOf h v k =
     (case cellOf h v of
        Some (Obj fs) \<Rightarrow> (case map_of fs k of Some w \<Rightarrow> w | None \<Rightarrow> RUndefined)
      | _ \<Rightarrow> RUndefined)"

text \<open>The assignment \<open>o[k] = v\<close> to an object: an own property keeps its place, a new one
  goes to the end.\<close>

definition setProp :: "'n store \<Rightarrow> nat \<Rightarrow> string \<Rightarrow> 'n rval \<Rightarrow> 'n store" where
  "setProp h a k v =
     (case cellOf h (RRef a) of
        Some (Obj fs) \<Rightarrow> h[a := Obj (AList.update k v fs)]
      | _ \<Rightarrow> h)"

subsection \<open>The table of absolute-coordinate fields\<close>

definition ABSOLUTE_COORD_TYPES :: "(string \<times> string list) list" where
  "ABSOLUTE_COORD_TYPES =
     [(''line'', [''start'', ''end'']),
      (''path'', [''path'', ''points''])]"

text \<open>
  The table is an object literal, so a lookup also finds what every object inherits from
  \<open>Object.prototype\<close>: under these names the lookup gives a function or an object, which
  is truthy and not iterable, and the \<open>for ... of\<close> over it throws a \<open>TypeError\<close>.
\<close>

definition objectPrototypeNames :: "string list" where
  "objectPrototypeNames =
     [''constructor'', ''hasOwnProperty'', ''isPrototypeOf'', ''propertyIsEnumerable'',
      ''toLocaleString'', ''toString'', ''valueOf'', ''__proto__'',
      ''__defineGetter__'', ''__defineSetter__'', ''__lookupGetter__'', ''__lookupSetter__'']"

text \<open>The lookup under a string key, as the loop sees it: the fields to walk, or none, or
  the throw.\<close>

definition fieldsUnder :: "string \<Rightarrow> string list option outcome" where
  "fieldsUnder s =
     (case map_of ABSOLUTE_COORD_TYPES s of
        Some fieldNames \<Rightarrow> Value (Some fieldNames)
      | None \<Rightarrow> if s \<in> set objectPrototypeNames then Throws TypeError else Value None)"

text \<open>\<open>ABSOLUTE_COORD_TYPES[emitter.type]\<close>. A key that is an object or an array is turned
  into a string by the runtime. A primitive key that is not a string reads as its string
  form (\<open>undefined\<close>, \<open>null\<close>, \<open>true\<close>, \<open>false\<close>, the text of a number), which is in no
  table.\<close>

definition coordFieldsOf :: "'n runtime \<Rightarrow> 'n store \<Rightarrow> 'n rval \<Rightarrow> string list option outcome" where
  "coordFieldsOf rt h t =
     (case t of
        RStr s \<Rightarrow> fieldsUnder s
      | RRef a \<Rightarrow> (case coerceKey rt h t of Value s \<Rightarrow> fieldsUnder s | Throws e \<Rightarrow> Throws e)
      | _ \<Rightarrow> Value None)"

subsection \<open>The shift\<close>

text \<open>\<open>v + d\<close> for a number \<open>d\<close>: the sum of the runtime when \<open>v\<close> is a number, its coercion
  otherwise.\<close>

definition addTo :: "'n runtime \<Rightarrow> 'n store \<Rightarrow> 'n rval \<Rightarrow> 'n \<Rightarrow> 'n rval outcome" where
  "addTo rt h v d = (case v of RNum a \<Rightarrow> Value (RNum (numPlus rt a d)) | _ \<Rightarrow> coercePlus rt h v d)"

text \<open>\<open>shiftPoint\<close> reads \<open>p.x\<close> (a throw when \<open>p\<close> is \<open>null\<close> or \<open>undefined\<close>), adds \<open>dx\<close>, reads
  \<open>p.y\<close>, adds \<open>dy\<close>, and returns a new object.\<close>

definition shiftPoint :: "'n runtime \<Rightarrow> 'n store \<Rightarrow> 'n rval \<Rightarrow> 'n \<Rightarrow> 'n \<Rightarrow> 'n store \<times> 'n rval outcome" where
  "shiftPoint rt h p dx dy =
     (if p = RUndefined \<or> p = RNull then (h, Throws TypeError)
      else (case addTo rt h (propOf h p ''x'') dx of
              Throws e \<Rightarrow> (h, Throws e)
            | Value x' \<Rightarrow>
                (case addTo rt h (propOf h p ''y'') dy of
                   Throws e \<Rightarrow> (h, Throws e)
                 | Value y' \<Rightarrow>
                     (let (h', a) = alloc h (Obj [(''x'', x'), (''y'', y')])
                      in (h', Value (RRef a))))))"

text \<open>\<open>value.map((p) => shiftPoint(p, dx, dy))\<close>: the callback on each element in order.\<close>

fun shiftPoints :: "'n runtime \<Rightarrow> 'n store \<Rightarrow> 'n rval list \<Rightarrow> 'n \<Rightarrow> 'n \<Rightarrow> 'n store \<times> 'n rval list outcome" where
  "shiftPoints rt h [] dx dy = (h, Value [])"
| "shiftPoints rt h (p # ps) dx dy =
     (case shiftPoint rt h p dx dy of
        (h1, Value q) \<Rightarrow>
          (case shiftPoints rt h1 ps dx dy of
             (h2, Value qs) \<Rightarrow> (h2, Value (q # qs))
           | (h2, Throws e) \<Rightarrow> (h2, Throws e))
      | (h1, Throws e) \<Rightarrow> (h1, Throws e))"

text \<open>
  The body of the loop over the fields: \<open>value\<close> is read from the emitter, the shifted
  copy is assigned to \<open>updated\<close> (the object at address \<open>u\<close>).
\<close>

definition shiftField ::
  "'n runtime \<Rightarrow> 'n store \<Rightarrow> nat \<Rightarrow> 'n rval \<Rightarrow> string \<Rightarrow> 'n \<Rightarrow> 'n \<Rightarrow> 'n store \<times> unit outcome" where
  "shiftField rt h u emitter field dx dy =
     (let v = propOf h emitter field in
      case cellOf h v of
        Some (Arr ps) \<Rightarrow>
          (case shiftPoints rt h ps dx dy of
             (h1, Value qs) \<Rightarrow>
               (let (h2, a) = alloc h1 (Arr qs) in (setProp h2 u field (RRef a), Value ()))
           | (h1, Throws e) \<Rightarrow> (h1, Throws e))
      | Some (Obj fs) \<Rightarrow>
          if ''x'' \<in> fst ` set fs \<and> ''y'' \<in> fst ` set fs then
            (case shiftPoint rt h v dx dy of
               (h1, Value q) \<Rightarrow> (setProp h1 u field q, Value ())
             | (h1, Throws e) \<Rightarrow> (h1, Throws e))
          else (h, Value ())
      | None \<Rightarrow> (h, Value ()))"

fun shiftFields ::
  "'n runtime \<Rightarrow> 'n store \<Rightarrow> nat \<Rightarrow> 'n rval \<Rightarrow> string list \<Rightarrow> 'n \<Rightarrow> 'n \<Rightarrow> 'n store \<times> unit outcome" where
  "shiftFields rt h u emitter [] dx dy = (h, Value ())"
| "shiftFields rt h u emitter (field # fieldNames) dx dy =
     (case shiftField rt h u emitter field dx dy of
        (h1, Value _) \<Rightarrow> shiftFields rt h1 u emitter fieldNames dx dy
      | (h1, Throws e) \<Rightarrow> (h1, Throws e))"

text \<open>
  The callback of \<open>emitters.map\<close>. The spread \<open>{ ...emitter }\<close> allocates \<open>updated\<close>. An
  emitter that is not an object has no \<open>position\<close> to read, or cannot be read at all:
  either way a \<open>TypeError\<close> (the copy made before the throw is not kept).
\<close>

definition recentreEmitter :: "'n runtime \<Rightarrow> 'n store \<Rightarrow> 'n rval \<Rightarrow> 'n \<Rightarrow> 'n \<Rightarrow> 'n store \<times> 'n rval outcome" where
  "recentreEmitter rt h emitter dx dy =
     (case cellOf h emitter of
        Some (Obj fs) \<Rightarrow>
          (let (h1, u) = alloc h (Obj fs) in
           case shiftPoint rt h1 (propOf h1 emitter ''position'') dx dy of
             (h2, Value pos) \<Rightarrow>
               (let h3 = setProp h2 u ''position'' pos in
                case coordFieldsOf rt h3 (propOf h3 emitter ''type'') of
                  Value None \<Rightarrow> (h3, Value (RRef u))
                | Value (Some fieldNames) \<Rightarrow>
                    (case shiftFields rt h3 u emitter fieldNames dx dy of
                       (h4, Value _) \<Rightarrow> (h4, Value (RRef u))
                     | (h4, Throws e) \<Rightarrow> (h4, Throws e))
                | Throws e \<Rightarrow> (h3, Throws e))
           | (h2, Throws e) \<Rightarrow> (h2, Throws e))
      | _ \<Rightarrow> (h, Throws TypeError))"

fun recentreEach :: "'n runtime \<Rightarrow> 'n store \<Rightarrow> 'n rval list \<Rightarrow> 'n \<Rightarrow> 'n \<Rightarrow> 'n store \<times> 'n rval list outcome" where
  "recentreEach rt h [] dx dy = (h, Value [])"
| "recentreEach rt h (emitter # rest) dx dy =
     (case recentreEmitter rt h emitter dx dy of
        (h1, Value r) \<Rightarrow>
          (case recentreEach rt h1 rest dx dy of
             (h2, Value rs) \<Rightarrow> (h2, Value (r # rs))
           | (h2, Throws e) \<Rightarrow> (h2, Throws e))
      | (h1, Throws e) \<Rightarrow> (h1, Throws e))"

text \<open>
  The function. Its argument is declared an array; on anything else \<open>emitters.length\<close>
  throws (\<open>null\<close>, \<open>undefined\<close>), or is 0 and the argument is returned (the empty string, an
  object whose \<open>length\<close> is 0), or \<open>emitters.map\<close> is not a function.
\<close>

definition recentreEmittersOnResize ::
  "'n runtime \<Rightarrow> 'n store \<Rightarrow> 'n rval \<Rightarrow> 'n \<Rightarrow> 'n \<Rightarrow> 'n \<Rightarrow> 'n \<Rightarrow> 'n store \<times> 'n rval outcome" where
  "recentreEmittersOnResize rt h emitterList oldWidth oldHeight newWidth newHeight =
     (let dx = numMinus rt (numHalf rt newWidth) (numHalf rt oldWidth);
          dy = numMinus rt (numHalf rt newHeight) (numHalf rt oldHeight)
      in
        if numIsZero rt dx \<and> numIsZero rt dy then (h, Value emitterList)
        else (case emitterList of
                RUndefined \<Rightarrow> (h, Throws TypeError)
              | RNull \<Rightarrow> (h, Throws TypeError)
              | RStr s \<Rightarrow> if length s = 0 then (h, Value emitterList) else (h, Throws TypeError)
              | RRef a \<Rightarrow>
                  (case cellOf h emitterList of
                     Some (Arr es) \<Rightarrow>
                       if length es = 0 then (h, Value emitterList)
                       else (case recentreEach rt h es dx dy of
                               (h1, Value rs) \<Rightarrow>
                                 (let (h2, b) = alloc h1 (Arr rs) in (h2, Value (RRef b)))
                             | (h1, Throws e) \<Rightarrow> (h1, Throws e))
                   | Some (Obj fs) \<Rightarrow>
                       (case map_of fs ''length'' of
                          Some (RNum n) \<Rightarrow>
                            if numIsZero rt n then (h, Value emitterList) else (h, Throws TypeError)
                        | _ \<Rightarrow> (h, Throws TypeError))
                   | None \<Rightarrow> (h, Throws TypeError))
              | _ \<Rightarrow> (h, Throws TypeError)))"

subsection \<open>Reading the result\<close>

text \<open>The offsets of a resize, \<open>dx\<close> from the widths and \<open>dy\<close> from the heights.\<close>

definition centreShift :: "'n runtime \<Rightarrow> 'n \<Rightarrow> 'n \<Rightarrow> 'n" where
  "centreShift rt oldSize newSize = numMinus rt (numHalf rt newSize) (numHalf rt oldSize)"

text \<open>The point a value denotes, when it is an object with a numeric \<open>x\<close> and \<open>y\<close>.\<close>

definition pointAt :: "'n store \<Rightarrow> 'n rval \<Rightarrow> ('n \<times> 'n) option" where
  "pointAt h v =
     (case (propOf h v ''x'', propOf h v ''y'') of
        (RNum x, RNum y) \<Rightarrow> Some (x, y)
      | _ \<Rightarrow> None)"

text \<open>A point translated by \<open>(dx, dy)\<close>: the sums are those of the runtime.\<close>

definition shiftBy :: "'n runtime \<Rightarrow> 'n \<Rightarrow> 'n \<Rightarrow> 'n \<times> 'n \<Rightarrow> 'n \<times> 'n" where
  "shiftBy rt dx dy p = (numPlus rt (fst p) dx, numPlus rt (snd p) dy)"

text \<open>A reference to no cell of the store.\<close>

definition isFresh :: "'n store \<Rightarrow> 'n rval \<Rightarrow> bool" where
  "isFresh h v = (case v of RRef a \<Rightarrow> length h \<le> a | _ \<Rightarrow> False)"

text \<open>
  An emitter of the declared type, as far as this function reads it: an object whose
  \<open>position\<close> is a point, whose \<open>type\<close> is a string that names nothing inherited, and
  whose absolute-coordinate fields hold values of the store and, where the loop shifts
  them, points.
\<close>

definition shiftable :: "'n store \<Rightarrow> 'n rval \<Rightarrow> bool" where
  "shiftable h v =
     (case cellOf h v of
        Some (Arr ps) \<Rightarrow> list_all (\<lambda>p. pointAt h p \<noteq> None) ps
      | Some (Obj fs) \<Rightarrow>
          (if ''x'' \<in> fst ` set fs \<and> ''y'' \<in> fst ` set fs then pointAt h v \<noteq> None else True)
      | None \<Rightarrow> \<not> isFresh h v)"

definition wellFormedEmitter :: "'n store \<Rightarrow> 'n rval \<Rightarrow> bool" where
  "wellFormedEmitter h e =
     ((case cellOf h e of Some (Obj fs) \<Rightarrow> True | _ \<Rightarrow> False)
      \<and> pointAt h (propOf h e ''position'') \<noteq> None
      \<and> (case propOf h e ''type'' of
            RStr t \<Rightarrow>
              t \<notin> set objectPrototypeNames
              \<and> (case map_of ABSOLUTE_COORD_TYPES t of
                    Some fieldNames \<Rightarrow> list_all (\<lambda>f. shiftable h (propOf h e f)) fieldNames
                  | None \<Rightarrow> True)
          | _ \<Rightarrow> False))"

text \<open>
  The frame: every cell of the store \<open>h\<close> is a cell of \<open>h'\<close>, with the same content
  (but, in the second relation, the cell at \<open>u\<close>).
\<close>

definition extends :: "'n store \<Rightarrow> 'n store \<Rightarrow> bool" where
  "extends h h' = (length h \<le> length h' \<and> (\<forall>a < length h. h' ! a = h ! a))"

definition extendsExcept :: "nat \<Rightarrow> 'n store \<Rightarrow> 'n store \<Rightarrow> bool" where
  "extendsExcept u h h' = (length h \<le> length h' \<and> (\<forall>a < length h. a \<noteq> u \<longrightarrow> h' ! a = h ! a))"

text \<open>A reference to a cell of \<open>h\<close> at address \<open>n\<close> or above: with \<open>n\<close> the length of an
  earlier store, a cell that was allocated since.\<close>

definition allocatedFrom :: "nat \<Rightarrow> 'n store \<Rightarrow> 'n rval \<Rightarrow> bool" where
  "allocatedFrom n h v = (case v of RRef a \<Rightarrow> n \<le> a \<and> a < length h | _ \<Rightarrow> False)"

text \<open>A new object; when it is an array, its elements are new objects too.\<close>

definition freshObject :: "nat \<Rightarrow> 'n store \<Rightarrow> 'n rval \<Rightarrow> bool" where
  "freshObject n h w =
     (allocatedFrom n h w
      \<and> (case cellOf h w of Some (Arr qs) \<Rightarrow> list_all (allocatedFrom n h) qs | _ \<Rightarrow> True))"

text \<open>\<open>q\<close>, read in the store \<open>h'\<close>, is the point \<open>p\<close> of the store \<open>h\<close> translated by
  \<open>(dx, dy)\<close>.\<close>

definition translated :: "'n runtime \<Rightarrow> 'n store \<Rightarrow> 'n store \<Rightarrow> 'n \<Rightarrow> 'n \<Rightarrow> 'n rval \<Rightarrow> 'n rval \<Rightarrow> bool" where
  "translated rt h h' dx dy p q =
     (\<exists>xy. pointAt h p = Some xy \<and> pointAt h' q = Some (shiftBy rt dx dy xy))"

text \<open>
  \<open>r\<close>, read in \<open>h'\<close>, is a fresh copy of the emitter \<open>e\<close> of \<open>h\<close>: a new object whose
  \<open>position\<close> is a new object and whose every property either is a property of \<open>e\<close>, with
  the very value it has in \<open>e\<close>, or holds a new object.
\<close>

definition freshCopy :: "'n store \<Rightarrow> 'n store \<Rightarrow> 'n rval \<Rightarrow> 'n rval \<Rightarrow> bool" where
  "freshCopy h h' e r =
     (allocatedFrom (length h) h' r
      \<and> (\<exists>fs gs p. cellOf h e = Some (Obj fs) \<and> cellOf h' r = Some (Obj gs)
            \<and> map_of gs ''position'' = Some p \<and> freshObject (length h) h' p
            \<and> (\<forall>(k, w) \<in> set gs. (k, w) \<in> set fs \<or> freshObject (length h) h' w)))"

text \<open>
  What the loop over the fields leaves in a field of \<open>updated\<close> (\<open>wo\<close>, read in \<open>h'\<close>) for
  the value \<open>v\<close> the emitter has there in \<open>h\<close>: a point gives a new, translated point; an
  array gives a new array of new, translated points.
\<close>

definition fieldShifted ::
  "'n runtime \<Rightarrow> 'n store \<Rightarrow> nat \<Rightarrow> 'n store \<Rightarrow> 'n \<Rightarrow> 'n \<Rightarrow> 'n rval \<Rightarrow> 'n rval option \<Rightarrow> bool" where
  "fieldShifted rt h n h' dx dy v wo =
     ((\<forall>xy. pointAt h v = Some xy \<longrightarrow>
          (\<exists>w. wo = Some w \<and> allocatedFrom n h' w \<and> pointAt h' w = Some (shiftBy rt dx dy xy)))
      \<and> (\<forall>ps. cellOf h v = Some (Arr ps) \<longrightarrow>
          (\<exists>w qs. wo = Some w \<and> allocatedFrom n h' w \<and> cellOf h' w = Some (Arr qs)
             \<and> list_all (allocatedFrom n h') qs \<and> list_all2 (translated rt h h' dx dy) ps qs)))"

text \<open>
  The shift semantics of one emitter: \<open>r\<close>, read in \<open>h'\<close>, against the emitter \<open>e\<close> of
  \<open>h\<close>. The position is translated. For a line, \<open>start\<close> and \<open>end\<close> are translated where
  they are points. For a path, every element of the arrays \<open>path\<close> and \<open>points\<close> is
  translated. For any other type, the object is the emitter's with a new \<open>position\<close>:
  the same properties in the same order, every other one with the very value it has in
  \<open>e\<close>.
\<close>

definition emitterShifted :: "'n runtime \<Rightarrow> 'n store \<Rightarrow> 'n store \<Rightarrow> 'n \<Rightarrow> 'n \<Rightarrow> 'n rval \<Rightarrow> 'n rval \<Rightarrow> bool" where
  "emitterShifted rt h h' dx dy e r =
     (translated rt h h' dx dy (propOf h e ''position'') (propOf h' r ''position'')
      \<and> (propOf h e ''type'' = RStr ''line'' \<longrightarrow>
           (\<forall>f \<in> {''start'', ''end''}.
              pointAt h (propOf h e f) \<noteq> None \<longrightarrow>
              translated rt h h' dx dy (propOf h e f) (propOf h' r f)))
      \<and> (propOf h e ''type'' = RStr ''path'' \<longrightarrow>
           (\<forall>f \<in> {''path'', ''points''}. \<forall>ps.
              cellOf h (propOf h e f) = Some (Arr ps) \<longrightarrow>
              (\<exists>qs. cellOf h' (propOf h' r f) = Some (Arr qs)
                 \<and> list_all2 (translated rt h h' dx dy) ps qs)))
      \<and> (propOf h e ''type'' \<noteq> RStr ''line'' \<and> propOf h e ''type'' \<noteq> RStr ''path'' \<longrightarrow>
           (\<exists>fs p. cellOf h e = Some (Obj fs)
              \<and> cellOf h' r = Some (Obj (AList.update ''position'' p fs)))))"

subsection \<open>Example stores\<close>

text \<open>
  A runtime for the examples. Its numbers are rationals with exact arithmetic, which is
  the arithmetic of doubles on the numbers of the examples (integers of a few digits and
  their halves). Its sums with an operand that is not a number are those listed in a
  table, and it knows no key for an object; no example reaches another coercion.
\<close>

definition exampleRuntime :: "((rat rval \<times> rat) \<times> rat rval) list \<Rightarrow> rat runtime" where
  "exampleRuntime coercions =
     \<lparr> numPlus = (\<lambda>a b. a + b),
       numMinus = (\<lambda>a b. a - b),
       numHalf = (\<lambda>a. a / 2),
       numIsZero = (\<lambda>a. a = 0),
       coercePlus = (\<lambda>h v d. case map_of coercions (v, d) of Some r \<Rightarrow> Value r | None \<Rightarrow> Throws TypeError),
       coerceKey = (\<lambda>h v. Throws TypeError) \<rparr>"

text \<open>
  The line emitter and the polygon emitter of the renormalizer's tests in one list, on
  the 800 x 600 canvas: cells 0 to 3 are the line emitter (position, start, end, the
  emitter), cells 4 to 8 the polygon emitter (position, two vertices, the array of
  vertices, the emitter), cell 9 is the list.
\<close>

definition exampleStore :: "rat store" where
  "exampleStore =
     [Obj [(''x'', RNum 400), (''y'', RNum 300)],
      Obj [(''x'', RNum 300), (''y'', RNum 300)],
      Obj [(''x'', RNum 500), (''y'', RNum 300)],
      Obj [(''type'', RStr ''line''), (''position'', RRef 0), (''emissionRate'', RNum 50),
           (''start'', RRef 1), (''end'', RRef 2)],
      Obj [(''x'', RNum 400), (''y'', RNum 300)],
      Obj [(''x'', RNum 0), (''y'', RNum (- 50))],
      Obj [(''x'', RNum 50), (''y'', RNum 50)],
      Arr [RRef 5, RRef 6],
      Obj [(''type'', RStr ''polygon''), (''position'', RRef 4), (''emissionRate'', RNum 50),
           (''vertices'', RRef 7)],
      Arr [RRef 3, RRef 8]]"

text \<open>The store after the resize to 1000 x 800: the ten cells above, then the copy of the
  line emitter and its three new points, the copy of the polygon emitter and its new
  position, and the new list.\<close>

definition exampleStoreResized :: "rat store" where
  "exampleStoreResized =
     exampleStore @
     [Obj [(''type'', RStr ''line''), (''position'', RRef 11), (''emissionRate'', RNum 50),
           (''start'', RRef 12), (''end'', RRef 13)],
      Obj [(''x'', RNum 500), (''y'', RNum 400)],
      Obj [(''x'', RNum 400), (''y'', RNum 400)],
      Obj [(''x'', RNum 600), (''y'', RNum 400)],
      Obj [(''type'', RStr ''polygon''), (''position'', RRef 15), (''emissionRate'', RNum 50),
           (''vertices'', RRef 7)],
      Obj [(''x'', RNum 500), (''y'', RNum 400)],
      Arr [RRef 10, RRef 14]]"

text \<open>
  A document in a store: every object and array of the document is allocated, the nested
  ones first and in order, and the value of the document is returned.
\<close>

primrec intoStore :: "jsval \<Rightarrow> rat store \<Rightarrow> rat store \<times> rat rval" where
  "intoStore JUndefined h = (h, RUndefined)"
| "intoStore JNull h = (h, RNull)"
| "intoStore (JBool b) h = (h, RBool b)"
| "intoStore (JNum n) h = (h, RNum n)"
| "intoStore (JStr s) h = (h, RStr s)"
| "intoStore (JArr vs) h =
     (let (h1, rs) =
            foldl (\<lambda>(h0, rs) put. let (h', r) = put h0 in (h', rs @ [r])) (h, [])
              (map intoStore vs);
          (h2, a) = alloc h1 (Arr rs)
      in (h2, RRef a))"
| "intoStore (JObj fs) h =
     (let (h1, gs) =
            foldl (\<lambda>(h0, gs) (k, put). let (h', r) = put h0 in (h', gs @ [(k, r)])) (h, [])
              (map (map_prod id intoStore) fs);
          (h2, a) = alloc h1 (Obj gs)
      in (h2, RRef a))"

text \<open>
  Two emitters that pass the import filter and the validator without an error, and are
  not of the declared type: a path emitter whose \<open>path\<close> holds a point with a string for
  \<open>x\<close>, and an emitter whose \<open>type\<close> is \<open>constructor\<close>.
\<close>

definition textPathEmitter :: jsval where
  "textPathEmitter =
     JObj [(''type'', JStr ''path''),
           (''position'', JObj [(''x'', JNum 400), (''y'', JNum 300)]),
           (''emissionRate'', JNum 50),
           (''particle'', testParticle),
           (''path'', JArr [JObj [(''x'', JStr ''10''), (''y'', JNum 5)]])]"

definition constructorEmitter :: jsval where
  "constructorEmitter =
     JObj [(''type'', JStr ''constructor''),
           (''position'', JObj [(''x'', JNum 400), (''y'', JNum 300)]),
           (''emissionRate'', JNum 50),
           (''particle'', testParticle)]"

text \<open>
  The list of the first emitter in a store: cell 0 is the position, cells 1 and 2 the
  behaviors and the particle, cells 3 and 4 the point and the path, cell 5 the emitter
  and cell 6 the list.
\<close>

definition textPathStore :: "rat store" where
  "textPathStore =
     [Obj [(''x'', RNum 400), (''y'', RNum 300)],
      Arr [],
      Obj [(''type'', RStr ''sprite''), (''texture'', RStr ''default''), (''lifetime'', RNum 1),
           (''behaviors'', RRef 1)],
      Obj [(''x'', RStr ''10''), (''y'', RNum 5)],
      Arr [RRef 3],
      Obj [(''type'', RStr ''path''), (''position'', RRef 0), (''emissionRate'', RNum 50),
           (''particle'', RRef 2), (''path'', RRef 4)],
      Arr [RRef 5]]"

text \<open>That store after the resize to 1000 x 800, with \<open>'10' + 100\<close> the string \<open>'10100'\<close>:
  the copy of the emitter, its new position, the new point, the new path and the new
  list.\<close>

definition textPathStoreResized :: "rat store" where
  "textPathStoreResized =
     textPathStore @
     [Obj [(''type'', RStr ''path''), (''position'', RRef 8), (''emissionRate'', RNum 50),
           (''particle'', RRef 2), (''path'', RRef 10)],
      Obj [(''x'', RNum 500), (''y'', RNum 400)],
      Obj [(''x'', RStr ''10100''), (''y'', RNum 105)],
      Arr [RRef 9],
      Arr [RRef 7]]"

text \<open>The list of the second emitter in a store: the position, the behaviors, the
  particle, the emitter and the list.\<close>

definition constructorStore :: "rat store" where
  "constructorStore =
     [Obj [(''x'', RNum 400), (''y'', RNum 300)],
      Arr [],
      Obj [(''type'', RStr ''sprite''), (''texture'', RStr ''default''), (''lifetime'', RNum 1),
           (''behaviors'', RRef 1)],
      Obj [(''type'', RStr ''constructor''), (''position'', RRef 0), (''emissionRate'', RNum 50),
           (''particle'', RRef 2)],
      Arr [RRef 3]]"

section \<open>Properties of the sequence detector\<close>

lemma validateSequence_gap_never_valid: "gaps s \<noteq> [] \<Longrightarrow> \<not> valid (validateSequence s)"
  by (simp add: validateSequence_def Let_def)

text \<open>
  C2. Gaps alone are not to make \<open>validateSequence\<close> answer \<open>valid = false\<close>: a sequence
  with a gap whose file count equals \<open>endFrame - startFrame + 1\<close> is to be valid, with a
  warning. The code does otherwise: it computes \<open>valid\<close> as "no warning at all". The four
  files below make \<open>detectSequence\<close> return a sequence with frames 0, 1, 3, 3: one gap,
  four files for four expected frames. On it \<open>validateSequence\<close> answers
  \<open>valid = False\<close>, the gap warning being its only warning.
\<close>

theorem validateSequence_gap_invalid:
  "detectSequence
     [\<lparr>name = ''f_0.png'', byteSize = 10\<rparr>, \<lparr>name = ''f_1.png'', byteSize = 10\<rparr>,
      \<lparr>name = ''f_3.png'', byteSize = 10\<rparr>, \<lparr>name = ''f_03.png'', byteSize = 10\<rparr>]
   = Some (Returned (Some
        \<lparr> baseName = ''f'', pattern = ''f_{0-3}.png'', startFrame = Fin 0, endFrame = Fin 3,
          padding = 1, gaps = [Fin 2],
          files = [\<lparr>name = ''f_0.png'', byteSize = 10\<rparr>, \<lparr>name = ''f_1.png'', byteSize = 10\<rparr>,
                   \<lparr>name = ''f_3.png'', byteSize = 10\<rparr>, \<lparr>name = ''f_03.png'', byteSize = 10\<rparr>] \<rparr>))
   \<and> validateSequence
       \<lparr> baseName = ''f'', pattern = ''f_{0-3}.png'', startFrame = Fin 0, endFrame = Fin 3,
         padding = 1, gaps = [Fin 2],
         files = [\<lparr>name = ''f_0.png'', byteSize = 10\<rparr>, \<lparr>name = ''f_1.png'', byteSize = 10\<rparr>,
                  \<lparr>name = ''f_3.png'', byteSize = 10\<rparr>, \<lparr>name = ''f_03.png'', byteSize = 10\<rparr>] \<rparr>
     = \<lparr> valid = False, warnings = [''Missing frames: 2 (1 gaps)''] \<rparr>"
  by code_simp















































section \<open>Properties of the config transform\<close>

lemma getProp_typeof_number: "typeof (getProp v k) = TyNumber \<Longrightarrow> isRecord v"
  by (cases v) (simp_all add: isRecord_def)

lemma getProp_typeof_string: "typeof (getProp v k) = TyString \<Longrightarrow> isRecord v"
  by (cases v) (simp_all add: isRecord_def)

lemma isEmitterConfig_shape: "isEmitterConfig e = shapeCheck_spec e"
  unfolding isEmitterConfig_def shapeCheck_spec_def Let_def
  using getProp_typeof_number getProp_typeof_string by auto

lemma parsed_system_prop:
  "optProp (parsed_system (toParsedYamlConfig v)) k = valueAt v [''system'', k]"
  by (cases v; cases "getProp v ''system''")
     (auto simp: toParsedYamlConfig_def optProp_def isRecord_def)

lemma parsed_emitters_prop:
  "parsed_emitters (toParsedYamlConfig v) = valueAt v [''emitters'']"
  by (cases v) (auto simp: toParsedYamlConfig_def isRecord_def)



text \<open>
  C3. Import shape-filter: when the text parses and the parsed \<open>emitters\<close> value is an
  array, \<open>yamlToEditorConfig\<close> returns (without an error) exactly the entries of that
  array, in order, that pass the minimal shape check as the specification words it; the
  others are dropped.
\<close>

theorem import_shape_filter:
  assumes "load text = Inr v" and "valueAt v [''emitters''] = JArr es"
  shows "\<exists>c. yamlToEditorConfig load text = Inr c \<and> emitters c = filter shapeCheck_spec es"
proof -
  have "parsed_emitters (toParsedYamlConfig v) = JArr es"
    using assms(2) by (simp add: parsed_emitters_prop)
  moreover have "filter isEmitterConfig es = filter shapeCheck_spec es"
    by (rule filter_cong) (simp_all add: isEmitterConfig_shape)
  ultimately show ?thesis
    using assms(1) by (simp add: yamlToEditorConfig_def Let_def)
qed

theorem import_shape_filter_witness:
  "\<exists>c. yamlToEditorConfig (loadTable [(importedText, importedDocument)]) importedText = Inr c
       \<and> emitters c = [pointEmitter]"
  using import_shape_filter
    [of "loadTable [(importedText, importedDocument)]" importedText importedDocument
        "[pointEmitter, noParticleEmitter]"]
  by (simp add: loadTable_def importedDocument_def shapeCheck_spec_def pointEmitter_def
      noParticleEmitter_def)

text \<open>
  C8. Import defaults: when the text parses, the returned config has
  \<open>system.maxParticles\<close> equal to the parsed value when that is a number and 1000
  otherwise, \<open>system.autoStart\<close> equal to the parsed value when that is a boolean and true
  otherwise, and no emitters when the parsed \<open>emitters\<close> value is not an array.
\<close>

theorem import_defaults:
  assumes "load text = Inr v"
  shows "\<exists>c. yamlToEditorConfig load text = Inr c
    \<and> maxParticles (system c) =
        (case valueAt v [''system'', ''maxParticles''] of JNum n \<Rightarrow> n | _ \<Rightarrow> 1000)
    \<and> autoStart (system c) =
        (case valueAt v [''system'', ''autoStart''] of JBool b \<Rightarrow> b | _ \<Rightarrow> True)
    \<and> ((\<forall>es. valueAt v [''emitters''] \<noteq> JArr es) \<longrightarrow> emitters c = [])"
  using assms
  unfolding yamlToEditorConfig_def Let_def parsed_system_prop parsed_emitters_prop
  by (auto split: jsval.splits)

theorem import_defaults_witness:
  "\<exists>c. yamlToEditorConfig
          (loadTable [(''system: {maxParticles: many, autoStart: false}'',
             JObj [(''system'', JObj [(''maxParticles'', JStr ''many''), (''autoStart'', JBool False)])])])
          ''system: {maxParticles: many, autoStart: false}'' = Inr c
       \<and> maxParticles (system c) = 1000 \<and> autoStart (system c) = False \<and> emitters c = []"
  using import_defaults
    [of "loadTable [(''system: {maxParticles: many, autoStart: false}'',
           JObj [(''system'', JObj [(''maxParticles'', JStr ''many''), (''autoStart'', JBool False)])])]"
        "''system: {maxParticles: many, autoStart: false}''"
        "JObj [(''system'', JObj [(''maxParticles'', JStr ''many''), (''autoStart'', JBool False)])]"]
  by (simp add: loadTable_def)

text \<open>
  C10. A text that parses to a value that is not a map (a scalar, a list, \<open>null\<close>, or the
  \<open>undefined\<close> of an empty document) is imported without an error as the full default
  config; and the import fails only when the parser fails.
\<close>

theorem import_not_a_map:
  "(load text = Inr v \<and> (\<forall>fs. v \<noteq> JObj fs) \<longrightarrow>
      yamlToEditorConfig load text
      = Inr \<lparr> system = \<lparr> maxParticles = 1000, autoStart = True \<rparr>, emitters = [] \<rparr>)
   \<and> ((\<exists>e. yamlToEditorConfig load text = Inl e) \<longleftrightarrow> (\<exists>e. load text = Inl e))"
proof -
  have "getProp v k = JUndefined" if "\<forall>fs. v \<noteq> JObj fs" for k
    using that by (cases v) simp_all
  then show ?thesis
    unfolding yamlToEditorConfig_def Let_def parsed_system_prop parsed_emitters_prop
    by (auto split: sum.splits)
qed

theorem import_not_a_map_witness:
  "yamlToEditorConfig (loadTable [(''- 1'', JArr [JNum 1])]) ''- 1''
   = Inr \<lparr> system = \<lparr> maxParticles = 1000, autoStart = True \<rparr>, emitters = [] \<rparr>
   \<and> (\<exists>e. yamlToEditorConfig (loadTable [(''- 1'', JArr [JNum 1])]) ''{'' = Inl e)"
proof -
  have "\<exists>e. loadTable [(''- 1'', JArr [JNum 1])] ''{'' = Inl e"
    by (simp add: loadTable_def)
  then show ?thesis
    using import_not_a_map [of "loadTable [(''- 1'', JArr [JNum 1])]" "''- 1''" "JArr [JNum 1]"]
      import_not_a_map [of "loadTable [(''- 1'', JArr [JNum 1])]" "''{''" "JNull"]
    by (simp add: loadTable_def)
qed



section \<open>Properties of the config validator\<close>

lemma digits_listed:
  "list_all (\<lambda>d. digitValue (''0123456789'' ! d) = d) [0 ..< 10]"
  by code_simp

lemma digit_nth: "d < 10 \<Longrightarrow> digitValue (''0123456789'' ! d) = d"
  using digits_listed by (simp add: list_all_iff)

lemma digit_nth_isDigit: "d < 10 \<Longrightarrow> isDigit (''0123456789'' ! d)"
proof -
  assume "d < 10"
  then have "''0123456789'' ! d \<in> set ''0123456789''"
    by (intro nth_mem) simp
  then show ?thesis by (simp only: isDigit_def)
qed

lemma show_nat_digits: "\<forall>c \<in> set (show_nat n). isDigit c"
proof (induction n rule: show_nat.induct)
  case (1 n)
  show ?case
  proof (cases "n < 10")
    case True
    then show ?thesis by (subst show_nat.simps) (simp add: digit_nth_isDigit)
  next
    case False
    then show ?thesis using 1 by (subst show_nat.simps) (simp add: digit_nth_isDigit)
  qed
qed

lemma read_show_nat: "foldl (\<lambda>acc c. 10 * acc + digitValue c) 0 (show_nat n) = n"
proof (induction n rule: show_nat.induct)
  case (1 n)
  show ?case
  proof (cases "n < 10")
    case True
    then show ?thesis by (subst show_nat.simps) (simp add: digit_nth)
  next
    case False
    then show ?thesis using 1 by (subst show_nat.simps) (simp add: digit_nth)
  qed
qed

lemma show_nat_inj: "show_nat m = show_nat n \<Longrightarrow> m = n"
  by (metis read_show_nat)

lemma split_at_colon:
  assumes "xs @ CHR '':'' # r = ys @ CHR '':'' # r'"
    and "\<forall>c \<in> set xs. isDigit c" and "\<forall>c \<in> set ys. isDigit c"
  shows "xs = ys \<and> r = r'"
proof -
  have nd: "\<not> isDigit CHR '':''" by (simp add: isDigit_def)
  have "takeWhile isDigit (xs @ CHR '':'' # r) = xs"
    using assms(2) nd by (simp add: takeWhile_append2)
  moreover have "takeWhile isDigit (ys @ CHR '':'' # r') = ys"
    using assms(3) nd by (simp add: takeWhile_append2)
  ultimately have "xs = ys" using assms(1) by simp
  then show ?thesis using assms(1) by simp
qed

lemma emitterLabel_inj:
  "emitterLabel i @ x = emitterLabel j @ y \<Longrightarrow> i = j \<and> x = y"
  unfolding emitterLabel_def
  using split_at_colon [of "show_nat i" "CHR '' '' # x" "show_nat j" "CHR '' '' # y"]
    show_nat_digits show_nat_inj by auto

lemma validateEmitter_defined:
  "e \<noteq> JUndefined \<Longrightarrow> e \<noteq> JNull \<Longrightarrow> validateEmitter i e = Inr (emitterErrors i e)"
  by (simp add: emitterErrors_def validateEmitter_def Let_def)

lemma validateEmitters_defined:
  "\<forall>e \<in> set es. e \<noteq> JUndefined \<and> e \<noteq> JNull \<Longrightarrow>
   \<exists>errs. validateEmitters k es = Inr errs
     \<and> set errs = (\<Union>i < length es. set (emitterErrors (k + i) (es ! i)))"
proof (induction es arbitrary: k)
  case Nil
  then show ?case by simp
next
  case (Cons e es)
  then obtain errs where errs: "validateEmitters (Suc k) es = Inr errs"
    "set errs = (\<Union>i < length es. set (emitterErrors (Suc k + i) (es ! i)))"
    by fastforce
  have e: "validateEmitter k e = Inr (emitterErrors k e)"
    using Cons.prems by (simp add: validateEmitter_defined)
  have "(\<Union>i < length (e # es). set (emitterErrors (k + i) ((e # es) ! i)))
      = set (emitterErrors k e) \<union> (\<Union>i < length es. set (emitterErrors (Suc k + i) (es ! i)))"
    by (auto simp: less_Suc_eq_0_disj)
  then show ?case using errs e by simp
qed

lemma emitterErrors_label:
  "m \<in> set (emitterErrors j e) \<Longrightarrow> \<exists>x. m = emitterLabel j @ x"
  by (auto simp: emitterErrors_def validateEmitter_def Let_def split: if_splits)

lemma rate_error_iff:
  assumes "e \<noteq> JUndefined" "e \<noteq> JNull"
  shows "emitterLabel i @ ''Invalid emissionRate'' \<in> set (emitterErrors i e) \<longleftrightarrow>
     (getProp e ''type'' \<noteq> JStr ''burst'' \<and> getProp e ''type'' \<noteq> JStr ''triggered''
      \<and> (typeof (getProp e ''emissionRate'') \<noteq> TyNumber
         \<or> (\<exists>r. getProp e ''emissionRate'' = JNum r \<and> r < 0)))"
  using assms
  by (cases "getProp e ''emissionRate''")
     (auto simp: emitterErrors_def validateEmitter_def Let_def)

lemma burst_error_iff:
  assumes "e \<noteq> JUndefined" "e \<noteq> JNull"
  shows "emitterLabel i @ ''burstCount must be a number >= 1'' \<in> set (emitterErrors i e) \<longleftrightarrow>
     (getProp e ''type'' = JStr ''burst''
      \<and> (typeof (getProp e ''burstCount'') \<noteq> TyNumber
         \<or> (\<exists>b. getProp e ''burstCount'' = JNum b \<and> b < 1)))"
  using assms
  by (cases "getProp e ''burstCount''")
     (auto simp: emitterErrors_def validateEmitter_def Let_def)


text \<open>
  C7. Burst/triggered exemption: in a config whose emitters can all be read, the
  validator reports \<open>Invalid emissionRate\<close> for the emitter at index \<open>i\<close> exactly when its
  type is neither burst nor triggered and its \<open>emissionRate\<close> is not a number or is
  negative, and it reports the \<open>burstCount\<close> error exactly when its type is burst and its
  \<open>burstCount\<close> is not a number or is below 1. So the burst emitter with \<open>burstCount\<close> 10
  and the triggered emitter, both without \<open>emissionRate\<close>, validate, and the burst emitter
  without \<open>burstCount\<close> fails with the \<open>burstCount\<close> message.
\<close>

theorem validator_rate_and_burst:
  assumes "received_emitters config = JArr es"
    and "\<forall>e \<in> set es. e \<noteq> JUndefined \<and> e \<noteq> JNull"
    and "i < length es"
  shows "(\<exists>r. validateEditorConfig config = Inr r
    \<and> (''Emitter '' @ show_nat i @ '': Invalid emissionRate'' \<in> set (errors r) \<longleftrightarrow>
         getProp (es ! i) ''type'' \<noteq> JStr ''burst''
         \<and> getProp (es ! i) ''type'' \<noteq> JStr ''triggered''
         \<and> (typeof (getProp (es ! i) ''emissionRate'') \<noteq> TyNumber
            \<or> (\<exists>r. getProp (es ! i) ''emissionRate'' = JNum r \<and> r < 0)))
    \<and> (''Emitter '' @ show_nat i @ '': burstCount must be a number >= 1'' \<in> set (errors r) \<longleftrightarrow>
         getProp (es ! i) ''type'' = JStr ''burst''
         \<and> (typeof (getProp (es ! i) ''burstCount'') \<noteq> TyNumber
            \<or> (\<exists>b. getProp (es ! i) ''burstCount'' = JNum b \<and> b < 1))))
    \<and> validateEditorConfig (testConfig burstEmitter) = Inr \<lparr> valid = True, errors = [] \<rparr>
    \<and> validateEditorConfig (testConfig triggeredEmitter) = Inr \<lparr> valid = True, errors = [] \<rparr>
    \<and> validateEditorConfig (testConfig burstEmitterNoCount)
        = Inr \<lparr> valid = False, errors = [''Emitter 0: burstCount must be a number >= 1''] \<rparr>"
proof -
  obtain errs where errs: "validateEmitters 0 es = Inr errs"
    "set errs = (\<Union>j < length es. set (emitterErrors j (es ! j)))"
    using validateEmitters_defined [OF assms(2), of 0] by auto
  define sysErrs where "sysErrs =
    (case received_system config of
       None \<Rightarrow> [''Missing system configuration'']
     | Some sys \<Rightarrow>
         if maxParticles sys < 1 \<or> maxParticles sys > 10000
         then [''maxParticles must be between 1 and 10000''] else [])"
  define r where "r = \<lparr> valid = (length (sysErrs @ errs) = 0), errors = sysErrs @ errs \<rparr>"
  have r: "validateEditorConfig config = Inr r"
    using assms(1) errs(1) by (simp add: validateEditorConfig_def r_def sysErrs_def Let_def)
  have sys: "emitterLabel i @ x \<notin> set sysErrs" for x
    by (auto simp: sysErrs_def emitterLabel_def split: option.splits)
  have unique: "emitterLabel i @ x \<in> set errs \<longleftrightarrow> emitterLabel i @ x \<in> set (emitterErrors i (es ! i))"
    for x
  proof
    assume "emitterLabel i @ x \<in> set errs"
    then obtain j where j: "j < length es" "emitterLabel i @ x \<in> set (emitterErrors j (es ! j))"
      using errs(2) by auto
    then obtain y where "emitterLabel i @ x = emitterLabel j @ y"
      using emitterErrors_label by blast
    then have "i = j" using emitterLabel_inj by blast
    then show "emitterLabel i @ x \<in> set (emitterErrors i (es ! i))" using j by simp
  next
    assume "emitterLabel i @ x \<in> set (emitterErrors i (es ! i))"
    then show "emitterLabel i @ x \<in> set errs" using errs(2) assms(3) by auto
  qed
  have mem: "emitterLabel i @ x \<in> set (errors r) \<longleftrightarrow> emitterLabel i @ x \<in> set (emitterErrors i (es ! i))"
    for x
    using sys unique by (simp add: r_def)
  have ok: "es ! i \<noteq> JUndefined" "es ! i \<noteq> JNull"
    using assms(2,3) by auto
  have lab1: "''Emitter '' @ show_nat i @ '': Invalid emissionRate''
      = emitterLabel i @ ''Invalid emissionRate''"
    by (simp add: emitterLabel_def)
  have lab2: "''Emitter '' @ show_nat i @ '': burstCount must be a number >= 1''
      = emitterLabel i @ ''burstCount must be a number >= 1''"
    by (simp add: emitterLabel_def)
  have general: "\<exists>r. validateEditorConfig config = Inr r
    \<and> (''Emitter '' @ show_nat i @ '': Invalid emissionRate'' \<in> set (errors r) \<longleftrightarrow>
         getProp (es ! i) ''type'' \<noteq> JStr ''burst''
         \<and> getProp (es ! i) ''type'' \<noteq> JStr ''triggered''
         \<and> (typeof (getProp (es ! i) ''emissionRate'') \<noteq> TyNumber
            \<or> (\<exists>r. getProp (es ! i) ''emissionRate'' = JNum r \<and> r < 0)))
    \<and> (''Emitter '' @ show_nat i @ '': burstCount must be a number >= 1'' \<in> set (errors r) \<longleftrightarrow>
         getProp (es ! i) ''type'' = JStr ''burst''
         \<and> (typeof (getProp (es ! i) ''burstCount'') \<noteq> TyNumber
            \<or> (\<exists>b. getProp (es ! i) ''burstCount'' = JNum b \<and> b < 1)))"
    unfolding lab1 lab2
    using r mem [of "''Invalid emissionRate''"] mem [of "''burstCount must be a number >= 1''"]
      rate_error_iff [OF ok, of i] burst_error_iff [OF ok, of i]
    by (intro exI [of _ r]) simp
  have burst: "validateEditorConfig (testConfig burstEmitter) = Inr \<lparr> valid = True, errors = [] \<rparr>"
    by (simp add: validateEditorConfig_def testConfig_def burstEmitter_def testParticle_def
        validateEmitter_def Let_def)
  have triggered: "validateEditorConfig (testConfig triggeredEmitter) = Inr \<lparr> valid = True, errors = [] \<rparr>"
    by (simp add: validateEditorConfig_def testConfig_def triggeredEmitter_def testParticle_def
        validateEmitter_def Let_def)
  have noCount: "validateEditorConfig (testConfig burstEmitterNoCount)
        = Inr \<lparr> valid = False, errors = [''Emitter 0: burstCount must be a number >= 1''] \<rparr>"
    by (simp add: validateEditorConfig_def testConfig_def burstEmitterNoCount_def testParticle_def
        validateEmitter_def emitterLabel_def show_nat.simps [of 0] Let_def)
  show ?thesis
    using general burst triggered noCount by (intro conjI)
qed

theorem validator_rate_and_burst_witness:
  "\<exists>r. validateEditorConfig (testConfig burstEmitterNoCount) = Inr r
     \<and> ''Emitter 0: Invalid emissionRate'' \<notin> set (errors r)
     \<and> ''Emitter 0: burstCount must be a number >= 1'' \<in> set (errors r)"
  using validator_rate_and_burst [of "testConfig burstEmitterNoCount" "[burstEmitterNoCount]" 0]
  by (simp add: testConfig_def burstEmitterNoCount_def show_nat.simps [of 0])

section \<open>Properties of the coordinate renormalizer\<close>

lemma extends_refl: "extends h h"
  by (simp add: extends_def)

lemma extends_trans: "extends a b \<Longrightarrow> extends b c \<Longrightarrow> extends a c"
  by (auto simp: extends_def)

lemma extends_append: "extends h (h @ xs)"
  by (simp add: extends_def nth_append)

lemma extendsExcept_refl: "extendsExcept u h h"
  by (simp add: extendsExcept_def)

lemma extendsExcept_trans:
  "extendsExcept u a b \<Longrightarrow> extendsExcept u b c \<Longrightarrow> extendsExcept u a c"
  by (auto simp: extendsExcept_def)

lemma extends_imp_except: "extends h h' \<Longrightarrow> extendsExcept u h h'"
  by (simp add: extends_def extendsExcept_def)

lemma except_above: "extends h0 h \<Longrightarrow> extendsExcept u h h' \<Longrightarrow> length h0 \<le> u \<Longrightarrow> extends h0 h'"
  by (auto simp: extends_def extendsExcept_def)

lemma cellOf_except:
  "extendsExcept u h h' \<Longrightarrow> cellOf h v = Some c \<Longrightarrow> v \<noteq> RRef u \<Longrightarrow> cellOf h' v = Some c"
  by (cases v) (auto simp: extendsExcept_def split: if_splits)

lemma cellOf_extends:
  "extends h h' \<Longrightarrow> cellOf h v = Some c \<Longrightarrow> cellOf h' v = Some c"
  by (cases v) (auto simp: extends_def split: if_splits)

lemma propOf_extends:
  "extends h h' \<Longrightarrow> cellOf h v = Some c \<Longrightarrow> propOf h' v k = propOf h v k"
  by (simp add: propOf_def cellOf_extends)

lemma propOf_except:
  "extendsExcept u h h' \<Longrightarrow> cellOf h v = Some c \<Longrightarrow> v \<noteq> RRef u \<Longrightarrow> propOf h' v k = propOf h v k"
  by (simp add: propOf_def cellOf_except)

lemma pointAt_Some_cell: "pointAt h v = Some p \<Longrightarrow> \<exists>fs. cellOf h v = Some (Obj fs)"
  by (auto simp: pointAt_def propOf_def split: option.splits cell.splits rval.splits)

lemma pointAt_extends:
  assumes "extends h h'" and "pointAt h v = Some p"
  shows "pointAt h' v = Some p"
proof -
  obtain fs where "cellOf h v = Some (Obj fs)"
    using pointAt_Some_cell [OF assms(2)] by blast
  then have "propOf h' v k = propOf h v k" for k
    using assms(1) by (rule propOf_extends [rotated])
  then show ?thesis using assms(2) by (simp only: pointAt_def)
qed

lemma pointAt_except:
  assumes "extendsExcept u h h'" and "pointAt h v = Some p" and "v \<noteq> RRef u"
  shows "pointAt h' v = Some p"
proof -
  obtain fs where "cellOf h v = Some (Obj fs)"
    using pointAt_Some_cell [OF assms(2)] by blast
  then have "propOf h' v k = propOf h v k" for k
    using assms(1,3) by (simp add: propOf_except)
  then show ?thesis using assms(2) by (simp only: pointAt_def)
qed

lemma alist_update_subset: "set (AList.update k v al) \<subseteq> insert (k, v) (set al)"
  by (induction al) auto

lemma shiftPoint_cases:
  assumes "shiftPoint rt h p dx dy = (h', res)"
  shows "(h' = h \<and> (\<exists>e. res = Throws e))
       \<or> (\<exists>x' y'. h' = h @ [Obj [(''x'', x'), (''y'', y')]] \<and> res = Value (RRef (length h)))"
proof (cases "p = RUndefined \<or> p = RNull")
  case True
  then show ?thesis using assms by (auto simp: shiftPoint_def)
next
  case False
  show ?thesis
  proof (cases "addTo rt h (propOf h p ''x'') dx")
    case (Throws e)
    then have "h' = h \<and> res = Throws e" using assms False by (simp add: shiftPoint_def)
    then show ?thesis by blast
  next
    case x: (Value x')
    show ?thesis
    proof (cases "addTo rt h (propOf h p ''y'') dy")
      case (Throws e)
      then have "h' = h \<and> res = Throws e" using assms False x by (simp add: shiftPoint_def)
      then show ?thesis by blast
    next
      case (Value y')
      then have "h' = h @ [Obj [(''x'', x'), (''y'', y')]] \<and> res = Value (RRef (length h))"
        using assms False x by (auto simp: shiftPoint_def alloc_def)
      then show ?thesis by blast
    qed
  qed
qed

lemma shiftPoint_point:
  "pointAt h p = Some (x, y) \<Longrightarrow>
   shiftPoint rt h p dx dy =
     (h @ [Obj [(''x'', RNum (numPlus rt x dx)), (''y'', RNum (numPlus rt y dy))]],
      Value (RRef (length h)))"
  by (auto simp: shiftPoint_def addTo_def pointAt_def alloc_def propOf_def split: rval.splits)

lemma shiftPoint_extends: "shiftPoint rt h p dx dy = (h', res) \<Longrightarrow> extends h h'"
  using shiftPoint_cases [of rt h p dx dy h' res] by (auto simp: extends_append extends_refl)

lemma shiftPoint_Value_ref:
  assumes "shiftPoint rt h p dx dy = (h', Value q)"
  shows "q = RRef (length h) \<and> length h' = Suc (length h)"
  using shiftPoint_cases [OF assms] by auto

lemma shiftPoint_Value_point:
  assumes "shiftPoint rt h p dx dy = (h', Value q)" and "pointAt h p = Some xy"
  shows "pointAt h' q = Some (shiftBy rt dx dy xy)"
  using assms shiftPoint_point [of h p "fst xy" "snd xy" rt dx dy]
  by (auto simp: pointAt_def propOf_def shiftBy_def)

lemma shiftPoint_progress:
  "pointAt h p = Some xy \<Longrightarrow> \<exists>h' q. shiftPoint rt h p dx dy = (h', Value q)"
  by (cases xy) (simp add: shiftPoint_point)

lemma allocatedFrom_mono:
  "allocatedFrom n h v \<Longrightarrow> m \<le> n \<Longrightarrow> length h \<le> length h' \<Longrightarrow> allocatedFrom m h' v"
  by (cases v) (auto simp: allocatedFrom_def)

lemma extendsExcept_length: "extendsExcept u h h' \<Longrightarrow> length h \<le> length h'"
  by (simp add: extendsExcept_def)

lemma extends_length: "extends h h' \<Longrightarrow> length h \<le> length h'"
  by (simp add: extends_def)

lemma allocatedFrom_cell:
  "allocatedFrom n h v \<Longrightarrow> u < n \<Longrightarrow> extendsExcept u h h' \<Longrightarrow> cellOf h' v = cellOf h v"
  by (cases v) (auto simp: allocatedFrom_def extendsExcept_def)

lemma freshObject_except:
  assumes "freshObject n h w" and "u < n" and "extendsExcept u h h'"
  shows "freshObject n h' w"
proof -
  have len: "length h \<le> length h'" using assms(3) by (rule extendsExcept_length)
  have a: "allocatedFrom n h w" using assms(1) by (simp add: freshObject_def)
  have c: "cellOf h' w = cellOf h w" using a assms(2,3) by (rule allocatedFrom_cell)
  have "list_all (allocatedFrom n h') qs" if "list_all (allocatedFrom n h) qs" for qs
    using that len by (auto simp: list_all_iff intro: allocatedFrom_mono)
  then show ?thesis
    using assms(1) a len unfolding freshObject_def c
    by (auto intro: allocatedFrom_mono split: option.splits cell.splits)
qed

lemma freshObject_lower: "freshObject n h w \<Longrightarrow> m \<le> n \<Longrightarrow> freshObject m h w"
  unfolding freshObject_def
  by (auto simp: list_all_iff intro: allocatedFrom_mono split: option.splits cell.splits)

lemma shiftPoint_fresh:
  "shiftPoint rt h p dx dy = (h', Value q) \<Longrightarrow> freshObject (length h) h' q"
  using shiftPoint_cases [of rt h p dx dy h' "Value q"]
  by (auto simp: freshObject_def allocatedFrom_def)

lemma shiftPoints_frame:
  "shiftPoints rt h ps dx dy = (h', res) \<Longrightarrow>
   extends h h' \<and> (\<forall>qs. res = Value qs \<longrightarrow> list_all (allocatedFrom (length h) h') qs)"
proof (induction ps arbitrary: h h' res)
  case Nil
  then show ?case by (auto simp: extends_refl)
next
  case (Cons p ps)
  obtain h1 r1 where sp: "shiftPoint rt h p dx dy = (h1, r1)" by (cases "shiftPoint rt h p dx dy")
  have e1: "extends h h1" using sp by (rule shiftPoint_extends)
  show ?case
  proof (cases r1)
    case (Value q)
    obtain h2 r2 where sps: "shiftPoints rt h1 ps dx dy = (h2, r2)"
      by (cases "shiftPoints rt h1 ps dx dy")
    have ih: "extends h1 h2" "\<forall>qs. r2 = Value qs \<longrightarrow> list_all (allocatedFrom (length h1) h2) qs"
      using Cons.IH [OF sps] by auto
    have h': "h' = h2" using Cons.prems sp sps Value by (auto split: outcome.splits)
    have q: "allocatedFrom (length h) h2 q"
      using shiftPoint_fresh [of rt h p dx dy h1 q] sp Value extends_length [OF ih(1)]
      by (auto simp: freshObject_def intro: allocatedFrom_mono)
    have "list_all (allocatedFrom (length h) h2) qs" if "r2 = Value qs" for qs
      using ih(2) that extends_length [OF e1] by (auto simp: list_all_iff intro: allocatedFrom_mono)
    then show ?thesis
      using Cons.prems sp sps Value e1 ih(1) q h'
      by (auto intro: extends_trans split: outcome.splits)
  next
    case (Throws e)
    then show ?thesis using Cons.prems sp e1 by auto
  qed
qed

lemma setProp_cell:
  "u < length h \<Longrightarrow> h ! u = Obj gs \<Longrightarrow> setProp h u k v = h[u := Obj (AList.update k v gs)]"
  by (simp add: setProp_def)

lemma setProp_except: "extendsExcept u h (setProp h u k v)"
  by (auto simp: setProp_def extendsExcept_def split: option.splits cell.splits)

lemma shiftField_frame:
  assumes "shiftField rt h u em f dx dy = (h', res)" and "u < length h" and "h ! u = Obj gs"
  shows "extendsExcept u h h'
    \<and> (\<exists>gs'. h' ! u = Obj gs'
         \<and> (gs' = gs \<or> (\<exists>w. gs' = AList.update f w gs \<and> freshObject (length h) h' w)))"
proof (cases "cellOf h (propOf h em f)")
  case None
  then show ?thesis using assms by (auto simp: shiftField_def extendsExcept_refl)
next
  case (Some c)
  show ?thesis
  proof (cases c)
    case (Arr ps)
    obtain h1 r1 where sps: "shiftPoints rt h ps dx dy = (h1, r1)" by (cases "shiftPoints rt h ps dx dy")
    have fr: "extends h h1" "\<forall>qs. r1 = Value qs \<longrightarrow> list_all (allocatedFrom (length h) h1) qs"
      using shiftPoints_frame [OF sps] by auto
    have len: "length h \<le> length h1" using fr(1) by (rule extends_length)
    have u1: "u < length h1" "h1 ! u = Obj gs"
      using fr(1) assms(2,3) by (auto simp: extends_def)
    show ?thesis
    proof (cases r1)
      case (Value qs)
      define h2 where "h2 = h1 @ [Arr qs]"
      have h': "h' = setProp h2 u f (RRef (length h1))"
        using assms(1) Some Arr sps Value by (simp add: shiftField_def alloc_def h2_def)
      have u2: "u < length h2" "h2 ! u = Obj gs" using u1 by (simp_all add: h2_def nth_append)
      have eq: "h' = h2[u := Obj (AList.update f (RRef (length h1)) gs)]"
        unfolding h' using u2 by (rule setProp_cell)
      have ex: "extendsExcept u h h'"
        unfolding eq using fr(1) by (auto simp: extendsExcept_def extends_def h2_def nth_append)
      have cellu: "h' ! u = Obj (AList.update f (RRef (length h1)) gs)"
        unfolding eq using u2 by simp
      have arr: "cellOf h' (RRef (length h1)) = Some (Arr qs)"
        unfolding eq using u1 by (simp add: h2_def nth_append)
      have "list_all (allocatedFrom (length h) h') qs"
        using fr(2) Value by (auto simp: list_all_iff eq h2_def intro: allocatedFrom_mono)
      then have "freshObject (length h) h' (RRef (length h1))"
        using arr len by (simp add: freshObject_def allocatedFrom_def eq h2_def)
      then show ?thesis using ex cellu by blast
    next
      case (Throws e)
      then show ?thesis
        using assms Some Arr sps fr(1) u1 by (auto simp: shiftField_def intro: extends_imp_except)
    qed
  next
    case (Obj fs)
    show ?thesis
    proof (cases "''x'' \<in> fst ` set fs \<and> ''y'' \<in> fst ` set fs")
      case False
      then show ?thesis using assms Some Obj by (auto simp: shiftField_def extendsExcept_refl)
    next
      case True
      obtain h1 r1 where sp: "shiftPoint rt h (propOf h em f) dx dy = (h1, r1)"
        by (cases "shiftPoint rt h (propOf h em f) dx dy")
      have e1: "extends h h1" using sp by (rule shiftPoint_extends)
      have u1: "u < length h1" "h1 ! u = Obj gs"
        using e1 assms(2,3) by (auto simp: extends_def)
      show ?thesis
      proof (cases r1)
        case (Value q)
        have h': "h' = setProp h1 u f q"
          using assms(1) Some Obj True sp Value by (simp add: shiftField_def)
        have eq: "h' = h1[u := Obj (AList.update f q gs)]"
          unfolding h' using u1 by (rule setProp_cell)
        have ex1: "extendsExcept u h1 h'" unfolding h' by (rule setProp_except)
        have ex: "extendsExcept u h h'"
          using extends_imp_except [OF e1] ex1 by (rule extendsExcept_trans)
        have "freshObject (length h) h1 q" using sp Value by (simp add: shiftPoint_fresh)
        then have "freshObject (length h) h' q"
          using assms(2) ex1 by (rule freshObject_except)
        moreover have "h' ! u = Obj (AList.update f q gs)" unfolding eq using u1 by simp
        ultimately show ?thesis using ex by blast
      next
        case (Throws e)
        then show ?thesis
          using assms Some Obj True sp e1 u1 by (auto simp: shiftField_def intro: extends_imp_except)
      qed
    qed
  qed
qed

lemma freshObject_extends:
  assumes "freshObject n h w" and "extends h h'"
  shows "freshObject n h' w"
proof -
  have len: "length h \<le> length h'" using assms(2) by (rule extends_length)
  have a: "allocatedFrom n h w" using assms(1) by (simp add: freshObject_def)
  have c: "cellOf h' w = cellOf h w"
    using a assms(2) by (cases w) (auto simp: allocatedFrom_def extends_def)
  have "list_all (allocatedFrom n h') qs" if "list_all (allocatedFrom n h) qs" for qs
    using that len by (auto simp: list_all_iff intro: allocatedFrom_mono)
  then show ?thesis
    using assms(1) a len unfolding freshObject_def c
    by (auto intro: allocatedFrom_mono split: option.splits cell.splits)
qed

lemma shiftFields_frame:
  assumes "shiftFields rt h u em fieldNames dx dy = (h', res)"
    and "u < length h" and "h ! u = Obj gs" and "u < n" and "n \<le> length h"
    and "\<forall>(k, w) \<in> set gs. (k, w) \<in> set fs \<or> freshObject n h w"
  shows "extendsExcept u h h'
    \<and> (\<exists>gs'. h' ! u = Obj gs'
          \<and> (\<forall>k. k \<notin> set fieldNames \<longrightarrow> map_of gs' k = map_of gs k)
          \<and> (\<forall>(k, w) \<in> set gs'. (k, w) \<in> set fs \<or> freshObject n h' w))"
  using assms
proof (induction fieldNames arbitrary: h gs)
  case Nil
  then show ?case by (auto simp: extendsExcept_refl)
next
  case (Cons f fieldNames)
  obtain h1 r1 where sf: "shiftField rt h u em f dx dy = (h1, r1)"
    by (cases "shiftField rt h u em f dx dy")
  from shiftField_frame [OF sf Cons.prems(2,3)]
  obtain gs1 where ex1: "extendsExcept u h h1" and u1: "h1 ! u = Obj gs1"
    and gs1: "gs1 = gs \<or> (\<exists>w. gs1 = AList.update f w gs \<and> freshObject (length h) h1 w)"
    by blast
  have len1: "length h \<le> length h1" using ex1 by (rule extendsExcept_length)
  have keep: "freshObject n h1 w" if "freshObject n h w" for w
    using that Cons.prems(4) ex1 by (rule freshObject_except)
  have inv1: "\<forall>(k, w) \<in> set gs1. (k, w) \<in> set fs \<or> freshObject n h1 w"
  proof (cases "gs1 = gs")
    case True
    then show ?thesis using Cons.prems(6) keep by auto
  next
    case False
    then obtain w where w: "gs1 = AList.update f w gs" "freshObject (length h) h1 w"
      using gs1 by blast
    have "freshObject n h1 w" using w(2) Cons.prems(5) by (rule freshObject_lower)
    then show ?thesis
      using Cons.prems(6) keep alist_update_subset [of f w gs] unfolding w(1) by blast
  qed
  have map1: "map_of gs1 k = map_of gs k" if "k \<noteq> f" for k
    using gs1 that by (auto simp: update_conv')
  show ?case
  proof (cases r1)
    case (Value x)
    then have run: "shiftFields rt h1 u em fieldNames dx dy = (h', res)"
      using Cons.prems(1) sf by simp
    have "extendsExcept u h1 h'
      \<and> (\<exists>gs'. h' ! u = Obj gs'
            \<and> (\<forall>k. k \<notin> set fieldNames \<longrightarrow> map_of gs' k = map_of gs1 k)
            \<and> (\<forall>(k, w) \<in> set gs'. (k, w) \<in> set fs \<or> freshObject n h' w))"
      using Cons.IH [OF run _ u1 Cons.prems(4) _ inv1] Cons.prems(2,5) len1 by simp
    then show ?thesis
      using ex1 map1 by (auto intro: extendsExcept_trans)
  next
    case (Throws e)
    then have "h' = h1" using Cons.prems(1) sf by simp
    then show ?thesis using ex1 u1 inv1 map1 by auto
  qed
qed

lemma fieldsUnder_not_position:
  "fieldsUnder s = Value (Some fieldNames) \<Longrightarrow> ''position'' \<notin> set fieldNames"
  by (auto simp: fieldsUnder_def ABSOLUTE_COORD_TYPES_def split: option.splits if_splits)

lemma coordFields_not_position:
  "coordFieldsOf rt h t = Value (Some fieldNames) \<Longrightarrow> ''position'' \<notin> set fieldNames"
  by (auto simp: coordFieldsOf_def fieldsUnder_not_position split: rval.splits outcome.splits)

lemma recentreEmitter_frame:
  assumes "recentreEmitter rt h em dx dy = (h', res)"
  shows "extends h h'
    \<and> (\<forall>r. res = Value r \<longrightarrow>
          r = RRef (length h)
          \<and> (\<exists>fs gs p. cellOf h em = Some (Obj fs) \<and> cellOf h' r = Some (Obj gs)
                \<and> map_of gs ''position'' = Some p \<and> freshObject (Suc (length h)) h' p
                \<and> (\<forall>(k, w) \<in> set gs. (k, w) \<in> set fs \<or> freshObject (Suc (length h)) h' w)))"
proof (cases "\<exists>fs. cellOf h em = Some (Obj fs)")
  case False
  then have "h' = h \<and> res = Throws TypeError"
    using assms by (auto simp: recentreEmitter_def split: option.splits cell.splits)
  then show ?thesis by (simp add: extends_refl)
next
  case True
  then obtain fs where fs: "cellOf h em = Some (Obj fs)" by blast
  define u where "u = length h"
  define h1 where "h1 = h @ [Obj fs]"
  have e01: "extends h h1" unfolding h1_def by (rule extends_append)
  obtain h2 r2 where sp: "shiftPoint rt h1 (propOf h1 em ''position'') dx dy = (h2, r2)"
    by (cases "shiftPoint rt h1 (propOf h1 em ''position'') dx dy")
  have e12: "extends h1 h2" using sp by (rule shiftPoint_extends)
  have e02: "extends h h2" using e01 e12 by (rule extends_trans)
  have u2: "u < length h2" "h2 ! u = Obj fs"
    using e12 by (auto simp: extends_def h1_def u_def nth_append)
  show ?thesis
  proof (cases r2)
    case (Throws e)
    then have "h' = h2 \<and> res = Throws e"
      using assms fs sp by (simp add: recentreEmitter_def alloc_def h1_def)
    then show ?thesis using e02 by simp
  next
    case (Value pos)
    define h3 where "h3 = setProp h2 u ''position'' pos"
    define gs3 where "gs3 = AList.update ''position'' pos fs"
    have eq3: "h3 = h2[u := Obj gs3]"
      unfolding h3_def gs3_def using u2 by (rule setProp_cell)
    have u3: "u < length h3" "h3 ! u = Obj gs3" using u2 by (simp_all add: eq3)
    have ex23: "extendsExcept u h2 h3" unfolding h3_def by (rule setProp_except)
    have e03: "extends h h3"
      using e02 ex23 by (rule except_above) (simp add: u_def)
    have "freshObject (length h1) h2 pos" using sp Value by (simp add: shiftPoint_fresh)
    then have pos2: "freshObject (Suc u) h2 pos" by (simp add: h1_def u_def)
    have pos3: "freshObject (Suc u) h3 pos"
      using pos2 _ ex23 by (rule freshObject_except) simp
    have inv3: "\<forall>(k, w) \<in> set gs3. (k, w) \<in> set fs \<or> freshObject (Suc u) h3 w"
      using alist_update_subset [of "''position''" pos fs] pos3 unfolding gs3_def by blast
    have p3: "map_of gs3 ''position'' = Some pos" by (simp add: gs3_def update_conv')
    have len3: "Suc u \<le> length h3" using u3(1) by simp
    have run: "(case coordFieldsOf rt h3 (propOf h3 em ''type'') of
                  Value None \<Rightarrow> (h3, Value (RRef u))
                | Value (Some fieldNames) \<Rightarrow>
                    (case shiftFields rt h3 u em fieldNames dx dy of
                       (h4, Value _) \<Rightarrow> (h4, Value (RRef u))
                     | (h4, Throws e) \<Rightarrow> (h4, Throws e))
                | Throws e \<Rightarrow> (h3, Throws e)) = (h', res)"
      unfolding h3_def u_def
      using assms fs sp [unfolded h1_def] Value
      by (simp add: recentreEmitter_def alloc_def Let_def)
    show ?thesis
    proof (cases "coordFieldsOf rt h3 (propOf h3 em ''type'')")
      case (Throws e)
      then show ?thesis using run e03 by auto
    next
      case cf: (Value fo)
      show ?thesis
      proof (cases fo)
        case None
        then have "h' = h3" "res = Value (RRef u)" using run cf by auto
        then show ?thesis
          using e03 u3 inv3 p3 pos3 fs by (auto simp: u_def)
      next
        case (Some fieldNames)
        obtain h4 r4 where sfs: "shiftFields rt h3 u em fieldNames dx dy = (h4, r4)"
          by (cases "shiftFields rt h3 u em fieldNames dx dy")
        from shiftFields_frame [OF sfs u3 _ len3 inv3]
        obtain gs4 where ex34: "extendsExcept u h3 h4" and u4: "h4 ! u = Obj gs4"
          and map4: "\<forall>k. k \<notin> set fieldNames \<longrightarrow> map_of gs4 k = map_of gs3 k"
          and inv4: "\<forall>(k, w) \<in> set gs4. (k, w) \<in> set fs \<or> freshObject (Suc u) h4 w"
          by auto
        have e04: "extends h h4"
          using e03 ex34 by (rule except_above) (simp add: u_def)
        have h': "h' = h4" using run cf Some sfs by (auto split: outcome.splits)
        have len4: "u < length h4" using u3(1) extendsExcept_length [OF ex34] by simp
        have p4: "map_of gs4 ''position'' = Some pos"
          using map4 coordFields_not_position [of rt h3 "propOf h3 em ''type''" fieldNames] cf Some p3
          by simp
        have pos4: "freshObject (Suc u) h4 pos"
          using pos3 _ ex34 by (rule freshObject_except) simp
        have rr: "\<forall>r. res = Value r \<longrightarrow> r = RRef u"
          using run cf Some sfs by (auto split: outcome.splits)
        have c4: "cellOf h4 (RRef u) = Some (Obj gs4)" using u4 len4 by simp
        have post: "\<exists>fs gs p. cellOf h em = Some (Obj fs) \<and> cellOf h4 (RRef u) = Some (Obj gs)
                \<and> map_of gs ''position'' = Some p \<and> freshObject (Suc u) h4 p
                \<and> (\<forall>(k, w) \<in> set gs. (k, w) \<in> set fs \<or> freshObject (Suc u) h4 w)"
          using fs c4 p4 pos4 inv4 by blast
        have "r = RRef (length h)
          \<and> (\<exists>fs gs p. cellOf h em = Some (Obj fs) \<and> cellOf h' r = Some (Obj gs)
                \<and> map_of gs ''position'' = Some p \<and> freshObject (Suc (length h)) h' p
                \<and> (\<forall>(k, w) \<in> set gs. (k, w) \<in> set fs \<or> freshObject (Suc (length h)) h' w))"
          if "res = Value r" for r
        proof -
          have r: "r = RRef u" using rr that by blast
          show ?thesis unfolding r h' using post by (simp add: u_def)
        qed
        then show ?thesis using e04 h' by blast
      qed
    qed
  qed
qed

lemma cellOf_base: "extends B h \<Longrightarrow> \<not> isFresh B v \<Longrightarrow> cellOf h v = cellOf B v"
  by (cases v) (auto simp: extends_def isFresh_def)

lemma freshCopy_extends:
  assumes "freshCopy B h1 e r" and "extends h1 h2"
  shows "freshCopy B h2 e r"
proof -
  from assms(1) obtain fs gs p where a: "allocatedFrom (length B) h1 r"
    and c: "cellOf B e = Some (Obj fs)" "cellOf h1 r = Some (Obj gs)"
    and p: "map_of gs ''position'' = Some p" "freshObject (length B) h1 p"
    and inv: "\<forall>(k, w) \<in> set gs. (k, w) \<in> set fs \<or> freshObject (length B) h1 w"
    unfolding freshCopy_def by blast
  have "allocatedFrom (length B) h2 r"
    using a _ extends_length [OF assms(2)] by (rule allocatedFrom_mono) simp
  moreover have "cellOf h2 r = Some (Obj gs)" using assms(2) c(2) by (rule cellOf_extends)
  moreover have "freshObject (length B) h2 p" using p(2) assms(2) by (rule freshObject_extends)
  moreover have "\<forall>(k, w) \<in> set gs. (k, w) \<in> set fs \<or> freshObject (length B) h2 w"
    using inv freshObject_extends [OF _ assms(2)] by blast
  ultimately show ?thesis unfolding freshCopy_def using c(1) p(1) by blast
qed

lemma recentreEach_frame:
  assumes "recentreEach rt h es dx dy = (h', res)" and "extends B h"
  shows "extends h h'
    \<and> (\<forall>rs. res = Value rs \<longrightarrow>
          length rs = length es \<and> list_all (allocatedFrom (length B) h') rs
          \<and> ((\<forall>e \<in> set es. \<not> isFresh B e) \<longrightarrow> list_all2 (freshCopy B h') es rs))"
  using assms
proof (induction es arbitrary: h h' res)
  case Nil
  then show ?case by (auto simp: extends_refl)
next
  case (Cons e es)
  obtain h1 r1 where re: "recentreEmitter rt h e dx dy = (h1, r1)"
    by (cases "recentreEmitter rt h e dx dy")
  note fr = recentreEmitter_frame [OF re]
  have e1: "extends h h1" using fr by blast
  have b1: "extends B h1" using Cons.prems(2) e1 by (rule extends_trans)
  show ?case
  proof (cases r1)
    case (Throws x)
    then show ?thesis using Cons.prems(1) re e1 by auto
  next
    case (Value r)
    obtain h2 r2 where rest: "recentreEach rt h1 es dx dy = (h2, r2)"
      by (cases "recentreEach rt h1 es dx dy")
    note ih = Cons.IH [OF rest b1]
    have e2: "extends h1 h2" using ih by blast
    have h': "h' = h2" using Cons.prems(1) re Value rest by (auto split: outcome.splits)
    have e02: "extends h h'" unfolding h' using e1 e2 by (rule extends_trans)
    from fr Value obtain fs gs p where r: "r = RRef (length h)"
      and c: "cellOf h e = Some (Obj fs)" "cellOf h1 r = Some (Obj gs)"
      and p: "map_of gs ''position'' = Some p" "freshObject (Suc (length h)) h1 p"
      and inv: "\<forall>(k, w) \<in> set gs. (k, w) \<in> set fs \<or> freshObject (Suc (length h)) h1 w"
      by blast
    have lenB: "length B \<le> length h" using Cons.prems(2) by (rule extends_length)
    have a1: "allocatedFrom (length B) h1 r"
      using c(2) lenB unfolding r by (auto simp: allocatedFrom_def split: if_splits)
    have a2: "allocatedFrom (length B) h2 r"
      using a1 _ extends_length [OF e2] by (rule allocatedFrom_mono) simp
    have copy: "freshCopy B h2 e r" if "\<not> isFresh B e"
    proof -
      have "cellOf B e = Some (Obj fs)"
        using cellOf_base [OF Cons.prems(2) that] c(1) by simp
      moreover have "freshObject (length B) h1 p"
        using p(2) by (rule freshObject_lower) (use lenB in simp)
      moreover have "\<forall>(k, w) \<in> set gs. (k, w) \<in> set fs \<or> freshObject (length B) h1 w"
        using inv freshObject_lower [of "Suc (length h)" h1 _ "length B"] lenB by fastforce
      ultimately have "freshCopy B h1 e r"
        unfolding freshCopy_def using a1 c(2) p(1) by blast
      then show ?thesis using e2 by (rule freshCopy_extends)
    qed
    have "length rs = length (e # es) \<and> list_all (allocatedFrom (length B) h') rs
          \<and> ((\<forall>e' \<in> set (e # es). \<not> isFresh B e') \<longrightarrow> list_all2 (freshCopy B h') (e # es) rs)"
      if "res = Value rs" for rs
    proof -
      from that obtain rs' where rs: "rs = r # rs'" "r2 = Value rs'"
        using Cons.prems(1) re Value rest by (auto split: outcome.splits)
      show ?thesis unfolding rs(1) h' using ih rs(2) a2 copy by simp
    qed
    then show ?thesis using e02 by blast
  qed
qed

text \<open>
  C5. Identity short-circuit: when \<open>dx = newWidth / 2 - oldWidth / 2\<close> and
  \<open>dy = newHeight / 2 - oldHeight / 2\<close> are both zero, or the list is empty, the function
  returns its argument itself, the same reference, and allocates nothing: the store after
  the call is the store before it. This holds whatever the arithmetic of the runtime.
\<close>

theorem recentre_identity:
  assumes "(numIsZero rt (centreShift rt oldWidth newWidth)
            \<and> numIsZero rt (centreShift rt oldHeight newHeight))
           \<or> cellOf h emitterList = Some (Arr [])"
  shows "recentreEmittersOnResize rt h emitterList oldWidth oldHeight newWidth newHeight
         = (h, Value emitterList)"
  using assms
  by (cases emitterList) (auto simp: recentreEmittersOnResize_def centreShift_def Let_def)

text \<open>
  C6. Non-mutation: whatever the runtime, the argument and the dimensions, and however
  the call ends, by a return or by a throw, every cell of the store before the call is in
  the store after it with the content it had: no input emitter and no object nested in
  one is changed. And when the call returns, either it returns its argument and the
  store is the same, or it returns a new list of new objects, one for each emitter in
  order, each a fresh copy of its emitter (for emitters that are objects of the store):
  its position is a new object, and each of its properties either is the emitter's, with
  the very value it has there, or holds a new object whose elements, when it is an
  array, are new objects too. The run is followed through every coercion: a coordinate
  that is no number gives a new point all the same, with what the runtime makes of the
  sum.
\<close>

theorem recentre_no_mutation:
  assumes "recentreEmittersOnResize rt h emitterList oldWidth oldHeight newWidth newHeight = (h', res)"
  shows "extends h h'
    \<and> (\<forall>r. res = Value r \<longrightarrow>
          (r = emitterList \<and> h' = h)
          \<or> (\<exists>es rs. cellOf h emitterList = Some (Arr es)
                \<and> allocatedFrom (length h) h' r \<and> cellOf h' r = Some (Arr rs)
                \<and> length rs = length es \<and> list_all (allocatedFrom (length h) h') rs
                \<and> ((\<forall>e \<in> set es. \<not> isFresh h e) \<longrightarrow> list_all2 (freshCopy h h') es rs)))"
proof -
  define dx where "dx = numMinus rt (numHalf rt newWidth) (numHalf rt oldWidth)"
  define dy where "dy = numMinus rt (numHalf rt newHeight) (numHalf rt oldHeight)"
  consider (same) "h' = h" "\<forall>r. res = Value r \<longrightarrow> r = emitterList"
    | (mapped) es h1 r1 where "cellOf h emitterList = Some (Arr es)"
        "recentreEach rt h es dx dy = (h1, r1)"
        "(case r1 of Value rs \<Rightarrow> (h1 @ [Arr rs], Value (RRef (length h1)))
          | Throws e \<Rightarrow> (h1, Throws e)) = (h', res)"
  proof (cases "\<exists>es. cellOf h emitterList = Some (Arr es) \<and> es \<noteq> []
                  \<and> \<not> (numIsZero rt dx \<and> numIsZero rt dy)")
    case False
    then have "h' = h \<and> (\<forall>r. res = Value r \<longrightarrow> r = emitterList)"
      using assms unfolding recentreEmittersOnResize_def Let_def dx_def dy_def
      by (auto split: rval.splits option.splits cell.splits if_splits)
    then show ?thesis using same by blast
  next
    case True
    then obtain es where es: "cellOf h emitterList = Some (Arr es)" "es \<noteq> []"
      "\<not> (numIsZero rt dx \<and> numIsZero rt dy)"
      by blast
    obtain h1 r1 where each: "recentreEach rt h es dx dy = (h1, r1)"
      by (cases "recentreEach rt h es dx dy")
    have "(case r1 of Value rs \<Rightarrow> (h1 @ [Arr rs], Value (RRef (length h1)))
          | Throws e \<Rightarrow> (h1, Throws e)) = (h', res)"
      using assms es each unfolding recentreEmittersOnResize_def Let_def dx_def dy_def
      by (cases emitterList) (auto simp: alloc_def split: outcome.splits)
    then show ?thesis using mapped es(1) each by blast
  qed
  then show ?thesis
  proof cases
    case same
    then show ?thesis by (auto simp: extends_refl)
  next
    case (mapped es h1 r1)
    note fr = recentreEach_frame [OF mapped(2) extends_refl]
    have e1: "extends h h1" using fr by blast
    show ?thesis
    proof (cases r1)
      case (Throws e)
      then show ?thesis using mapped(3) e1 by auto
    next
      case (Value rs)
      have h': "h' = h1 @ [Arr rs]" and res: "res = Value (RRef (length h1))"
        using mapped(3) Value by auto
      have e12: "extends h1 h'" unfolding h' by (rule extends_append)
      have e: "extends h h'" using e1 e12 by (rule extends_trans)
      have a: "allocatedFrom (length h) h' (RRef (length h1))"
        using extends_length [OF e1] by (simp add: allocatedFrom_def h')
      have c: "cellOf h' (RRef (length h1)) = Some (Arr rs)" by (simp add: h')
      have l: "length rs = length es" using fr Value by blast
      have n: "list_all (allocatedFrom (length h) h') rs"
        using fr Value extends_length [OF e12]
        by (auto simp: list_all_iff intro: allocatedFrom_mono)
      have f: "list_all2 (freshCopy h h') es rs" if "\<forall>e \<in> set es. \<not> isFresh h e"
      proof -
        have "list_all2 (freshCopy h h1) es rs" using fr Value that by blast
        then show ?thesis
          using freshCopy_extends [OF _ e12] by (auto elim: list_all2_mono)
      qed
      show ?thesis
        unfolding res using e mapped(1) a c l n f by blast
    qed
  qed
qed

lemma allocatedFrom_ne: "allocatedFrom n h w \<Longrightarrow> u < n \<Longrightarrow> w \<noteq> RRef u"
  by (auto simp: allocatedFrom_def)

lemma translated_except:
  "translated rt B h1 dx dy p q \<Longrightarrow> extendsExcept u h1 h2 \<Longrightarrow> q \<noteq> RRef u \<Longrightarrow>
   translated rt B h2 dx dy p q"
  unfolding translated_def using pointAt_except by blast

lemma translated_extends:
  "translated rt B h1 dx dy p q \<Longrightarrow> extends h1 h2 \<Longrightarrow> translated rt B h2 dx dy p q"
  unfolding translated_def using pointAt_extends by blast

lemma list_all2_translated_except:
  assumes "list_all2 (translated rt B h1 dx dy) ps qs" and "extendsExcept u h1 h2"
    and "list_all (allocatedFrom n h1) qs" and "u < n"
  shows "list_all2 (translated rt B h2 dx dy) ps qs"
proof -
  have "translated rt B h2 dx dy p q" if "translated rt B h1 dx dy p q" "q \<in> set qs" for p q
  proof -
    have "allocatedFrom n h1 q" using that(2) assms(3) by (simp add: list_all_iff)
    then have "q \<noteq> RRef u" using assms(4) by (rule allocatedFrom_ne)
    with that(1) assms(2) show ?thesis by (rule translated_except)
  qed
  then show ?thesis
    using assms(1) by (auto simp: list_all2_conv_all_nth)
qed

lemma fieldShifted_except:
  assumes "fieldShifted rt B n h1 dx dy v wo" and "extendsExcept u h1 h2" and "u < n"
  shows "fieldShifted rt B n h2 dx dy v wo"
proof -
  have len: "length h1 \<le> length h2" using assms(2) by (rule extendsExcept_length)
  have al: "allocatedFrom n h2 w" if "allocatedFrom n h1 w" for w
    using that _ len by (rule allocatedFrom_mono) simp
  have pt: "\<exists>w. wo = Some w \<and> allocatedFrom n h2 w \<and> pointAt h2 w = Some (shiftBy rt dx dy xy)"
    if "pointAt B v = Some xy" for xy
  proof -
    from assms(1) that obtain w where w: "wo = Some w" "allocatedFrom n h1 w"
      "pointAt h1 w = Some (shiftBy rt dx dy xy)"
      unfolding fieldShifted_def by blast
    have "pointAt h2 w = Some (shiftBy rt dx dy xy)"
      using assms(2) w(3) allocatedFrom_ne [OF w(2) assms(3)] by (rule pointAt_except)
    then show ?thesis using w al by blast
  qed
  have ar: "\<exists>w qs. wo = Some w \<and> allocatedFrom n h2 w \<and> cellOf h2 w = Some (Arr qs)
             \<and> list_all (allocatedFrom n h2) qs \<and> list_all2 (translated rt B h2 dx dy) ps qs"
    if "cellOf B v = Some (Arr ps)" for ps
  proof -
    from assms(1) that obtain w qs where w: "wo = Some w" "allocatedFrom n h1 w"
      "cellOf h1 w = Some (Arr qs)" "list_all (allocatedFrom n h1) qs"
      "list_all2 (translated rt B h1 dx dy) ps qs"
      unfolding fieldShifted_def by blast
    have "cellOf h2 w = Some (Arr qs)"
      using assms(2) w(3) allocatedFrom_ne [OF w(2) assms(3)] by (rule cellOf_except)
    moreover have "list_all (allocatedFrom n h2) qs"
      using w(4) al by (auto simp: list_all_iff)
    moreover have "list_all2 (translated rt B h2 dx dy) ps qs"
      using w(5) assms(2) w(4) assms(3) by (rule list_all2_translated_except)
    ultimately show ?thesis using w(1,2) al by blast
  qed
  show ?thesis unfolding fieldShifted_def using pt ar by blast
qed

lemma shiftPoints_values:
  assumes "\<forall>p \<in> set ps. pointAt B p \<noteq> None" and "extends B h"
  shows "\<exists>h' qs. shiftPoints rt h ps dx dy = (h', Value qs)
           \<and> list_all2 (translated rt B h' dx dy) ps qs"
  using assms
proof (induction ps arbitrary: h)
  case Nil
  then show ?case by simp
next
  case (Cons p ps)
  then obtain xy where xy: "pointAt B p = Some xy" by auto
  then have "pointAt h p = Some xy" using Cons.prems(2) by (simp add: pointAt_extends)
  then obtain h1 q where sp: "shiftPoint rt h p dx dy = (h1, Value q)"
    using shiftPoint_progress [of h p xy rt dx dy] by blast
  have q: "pointAt h1 q = Some (shiftBy rt dx dy xy)"
    using sp \<open>pointAt h p = Some xy\<close> by (rule shiftPoint_Value_point)
  have b1: "extends B h1"
    using Cons.prems(2) shiftPoint_extends [OF sp] by (rule extends_trans)
  from Cons.IH [OF _ b1] Cons.prems(1)
  obtain h2 qs where rest: "shiftPoints rt h1 ps dx dy = (h2, Value qs)"
    "list_all2 (translated rt B h2 dx dy) ps qs"
    by auto
  have "extends h1 h2" using shiftPoints_frame [OF rest(1)] by blast
  then have "pointAt h2 q = Some (shiftBy rt dx dy xy)" using q by (rule pointAt_extends)
  then have "translated rt B h2 dx dy p q" using xy by (auto simp: translated_def)
  then show ?case using sp rest by simp
qed

lemma propOf_base:
  "extends B h \<Longrightarrow> cellOf B v = Some c \<Longrightarrow> propOf h v k = propOf B v k"
  by (rule propOf_extends)

lemma shiftField_values:
  assumes "extends B h" and "cellOf B em = Some (Obj fs)" and "shiftable B (propOf B em f)"
    and "u < length h" and "h ! u = Obj gs"
  shows "\<exists>h' gs'. shiftField rt h u em f dx dy = (h', Value ()) \<and> h' ! u = Obj gs'
           \<and> (\<forall>k. k \<noteq> f \<longrightarrow> map_of gs' k = map_of gs k)
           \<and> fieldShifted rt B (length h) h' dx dy (propOf B em f) (map_of gs' f)"
proof -
  define v where "v = propOf B em f"
  have v: "propOf h em f = v" unfolding v_def using assms(1,2) by (rule propOf_base)
  have nf: "\<not> isFresh B v" using assms(3)
    by (cases v) (auto simp: shiftable_def v_def [symmetric] isFresh_def split: if_splits)
  have cv: "cellOf h v = cellOf B v" using assms(1) nf by (rule cellOf_base)
  show ?thesis
  proof (cases "cellOf B v")
    case None
    then have "shiftField rt h u em f dx dy = (h, Value ())"
      by (simp add: shiftField_def v cv)
    moreover have "fieldShifted rt B (length h) h dx dy v (map_of gs f)"
      using None pointAt_Some_cell [of B v] by (fastforce simp: fieldShifted_def)
    ultimately show ?thesis using assms(5) by (auto simp: v_def)
  next
    case (Some c)
    show ?thesis
    proof (cases c)
      case (Arr ps)
      have pts: "\<forall>p \<in> set ps. pointAt B p \<noteq> None"
        using assms(3) Some Arr by (simp add: shiftable_def v_def [symmetric] list_all_iff)
      from shiftPoints_values [OF pts assms(1)]
      obtain h1 qs where sps: "shiftPoints rt h ps dx dy = (h1, Value qs)"
        "list_all2 (translated rt B h1 dx dy) ps qs" by blast
      have fr: "extends h h1" "list_all (allocatedFrom (length h) h1) qs"
        using shiftPoints_frame [OF sps(1)] by auto
      define a where "a = length h1"
      define h2 where "h2 = h1 @ [Arr qs]"
      define gs' where "gs' = AList.update f (RRef a) gs"
      define h' where "h' = h2[u := Obj gs']"
      have u2: "u < length h2" "h2 ! u = Obj gs"
        using fr(1) assms(4,5) by (auto simp: extends_def h2_def nth_append)
      have run: "shiftField rt h u em f dx dy = (h', Value ())"
        using Some Arr sps(1) setProp_cell [OF u2]
        by (simp add: shiftField_def v cv alloc_def h2_def h'_def gs'_def a_def)
      have len: "length h \<le> a" unfolding a_def using fr(1) by (rule extends_length)
      have ex: "extendsExcept u h1 h'"
        by (auto simp: extendsExcept_def h'_def h2_def nth_append)
      have wa: "allocatedFrom (length h) h' (RRef a)"
        using len by (simp add: allocatedFrom_def h'_def h2_def a_def)
      have ca: "cellOf h' (RRef a) = Some (Arr qs)"
        using assms(4) len by (simp add: h'_def h2_def a_def nth_append)
      have qa: "list_all (allocatedFrom (length h) h') qs"
        using fr(2) by (auto simp: list_all_iff h'_def h2_def intro: allocatedFrom_mono)
      have tr: "list_all2 (translated rt B h' dx dy) ps qs"
        using sps(2) ex fr(2) assms(4) by (rule list_all2_translated_except)
      have nopoint: "pointAt B v = None"
        using Some Arr pointAt_Some_cell [of B v] by (cases "pointAt B v") auto
      have "fieldShifted rt B (length h) h' dx dy v (map_of gs' f)"
        unfolding fieldShifted_def using nopoint Some Arr wa ca qa tr
        by (simp add: gs'_def update_conv')
      moreover have "h' ! u = Obj gs'" using u2 by (simp add: h'_def)
      moreover have "\<forall>k. k \<noteq> f \<longrightarrow> map_of gs' k = map_of gs k"
        by (simp add: gs'_def update_conv')
      ultimately show ?thesis using run by (auto simp: v_def)
    next
      case (Obj ws)
      show ?thesis
      proof (cases "''x'' \<in> fst ` set ws \<and> ''y'' \<in> fst ` set ws")
        case False
        then have np: "pointAt B v = None"
          using Some Obj
          by (auto simp: pointAt_def propOf_def map_of_eq_None_iff [symmetric]
              split: option.splits rval.splits)
        have "shiftField rt h u em f dx dy = (h, Value ())"
          using Some Obj False by (auto simp: shiftField_def v cv)
        moreover have "fieldShifted rt B (length h) h dx dy v (map_of gs f)"
          using np Some Obj by (simp add: fieldShifted_def)
        ultimately show ?thesis using assms(5) by (auto simp: v_def)
      next
        case True
        then obtain xy where xy: "pointAt B v = Some xy"
          using assms(3) Some Obj by (auto simp: shiftable_def v_def [symmetric])
        then have "pointAt h v = Some xy" using assms(1) by (simp add: pointAt_extends)
        then obtain h1 q where sp: "shiftPoint rt h v dx dy = (h1, Value q)"
          using shiftPoint_progress [of h v xy rt dx dy] by blast
        have q: "q = RRef (length h)" "length h1 = Suc (length h)"
          "pointAt h1 q = Some (shiftBy rt dx dy xy)"
          using shiftPoint_Value_ref [OF sp]
            shiftPoint_Value_point [OF sp \<open>pointAt h v = Some xy\<close>] by auto
        have e1: "extends h h1" using sp by (rule shiftPoint_extends)
        define gs' where "gs' = AList.update f q gs"
        define h' where "h' = h1[u := Obj gs']"
        have u1: "u < length h1" "h1 ! u = Obj gs"
          using e1 assms(4,5) by (auto simp: extends_def)
        have run: "shiftField rt h u em f dx dy = (h', Value ())"
          using Some Obj True sp setProp_cell [OF u1]
          by (simp add: shiftField_def v cv h'_def gs'_def)
        have wa: "allocatedFrom (length h) h' q"
          using q by (simp add: allocatedFrom_def h'_def)
        have "extendsExcept u h1 h'" by (auto simp: extendsExcept_def h'_def)
        then have pq: "pointAt h' q = Some (shiftBy rt dx dy xy)"
          using q(3) by (rule pointAt_except) (use q(1) assms(4) in simp)
        have "fieldShifted rt B (length h) h' dx dy v (map_of gs' f)"
          unfolding fieldShifted_def using xy Some Obj wa pq
          by (simp add: gs'_def update_conv')
        moreover have "h' ! u = Obj gs'" using u1 by (simp add: h'_def)
        moreover have "\<forall>k. k \<noteq> f \<longrightarrow> map_of gs' k = map_of gs k"
          by (simp add: gs'_def update_conv')
        ultimately show ?thesis using run by (auto simp: v_def)
      qed
    qed
  qed
qed

lemma fieldShifted_lower:
  "fieldShifted rt B n h' dx dy v wo \<Longrightarrow> m \<le> n \<Longrightarrow> fieldShifted rt B m h' dx dy v wo"
  unfolding fieldShifted_def
  by (auto simp: list_all_iff intro: allocatedFrom_mono) (meson allocatedFrom_mono order_refl)+

lemma shiftFields_values:
  assumes "extends B h" and "cellOf B em = Some (Obj fs)"
    and "\<forall>f \<in> set fieldNames. shiftable B (propOf B em f)" and "distinct fieldNames"
    and "u < length h" and "length B \<le> u" and "h ! u = Obj gs"
  shows "\<exists>h' gs'. shiftFields rt h u em fieldNames dx dy = (h', Value ())
           \<and> extendsExcept u h h' \<and> h' ! u = Obj gs'
           \<and> (\<forall>k. k \<notin> set fieldNames \<longrightarrow> map_of gs' k = map_of gs k)
           \<and> (\<forall>f \<in> set fieldNames. fieldShifted rt B (Suc u) h' dx dy (propOf B em f) (map_of gs' f))"
  using assms
proof (induction fieldNames arbitrary: h gs)
  case Nil
  then show ?case by (auto simp: extendsExcept_refl)
next
  case (Cons f fieldNames)
  have sh: "shiftable B (propOf B em f)" using Cons.prems(3) by simp
  from shiftField_values [OF Cons.prems(1,2) sh Cons.prems(5,7)]
  obtain h1 gs1 where sf: "shiftField rt h u em f dx dy = (h1, Value ())" "h1 ! u = Obj gs1"
    and m1: "\<forall>k. k \<noteq> f \<longrightarrow> map_of gs1 k = map_of gs k"
    and f1: "fieldShifted rt B (length h) h1 dx dy (propOf B em f) (map_of gs1 f)"
    by blast
  have ex1: "extendsExcept u h h1"
    using shiftField_frame [OF sf(1) Cons.prems(5,7)] by blast
  have b1: "extends B h1" using Cons.prems(1) ex1 Cons.prems(6) by (rule except_above)
  have u1: "u < length h1" using Cons.prems(5) extendsExcept_length [OF ex1] by simp
  have wf': "\<forall>f \<in> set fieldNames. shiftable B (propOf B em f)" and d': "distinct fieldNames"
    using Cons.prems(3,4) by simp_all
  from Cons.IH [OF b1 Cons.prems(2) wf' d' u1 Cons.prems(6) sf(2)]
  obtain h' gs' where rest: "shiftFields rt h1 u em fieldNames dx dy = (h', Value ())"
    and ex2: "extendsExcept u h1 h'" and c': "h' ! u = Obj gs'"
    and m2: "\<forall>k. k \<notin> set fieldNames \<longrightarrow> map_of gs' k = map_of gs1 k"
    and f2: "\<forall>f \<in> set fieldNames. fieldShifted rt B (Suc u) h' dx dy (propOf B em f) (map_of gs' f)"
    by blast
  have run: "shiftFields rt h u em (f # fieldNames) dx dy = (h', Value ())"
    using sf(1) rest by simp
  have ex: "extendsExcept u h h'" using ex1 ex2 by (rule extendsExcept_trans)
  have "fieldShifted rt B (Suc u) h1 dx dy (propOf B em f) (map_of gs1 f)"
    using f1 by (rule fieldShifted_lower) (use Cons.prems(5) in simp)
  then have "fieldShifted rt B (Suc u) h' dx dy (propOf B em f) (map_of gs1 f)"
    using ex2 by (rule fieldShifted_except) simp
  moreover have "map_of gs' f = map_of gs1 f" using m2 Cons.prems(4) by simp
  ultimately have ff: "fieldShifted rt B (Suc u) h' dx dy (propOf B em f) (map_of gs' f)" by simp
  have "\<forall>k. k \<notin> set (f # fieldNames) \<longrightarrow> map_of gs' k = map_of gs k"
    using m1 m2 by simp
  then show ?case using run ex c' ff f2 by auto
qed

lemma coordFieldsOf_string:
  "t \<notin> set objectPrototypeNames \<Longrightarrow>
   coordFieldsOf rt h (RStr t) = Value (map_of ABSOLUTE_COORD_TYPES t)"
  by (simp add: coordFieldsOf_def fieldsUnder_def split: option.splits)

lemma table_cases:
  "map_of ABSOLUTE_COORD_TYPES t =
     (if t = ''line'' then Some [''start'', ''end'']
      else if t = ''path'' then Some [''path'', ''points''] else None)"
  by (simp add: ABSOLUTE_COORD_TYPES_def)

lemma recentreEmitter_values:
  assumes "extends B h" and "wellFormedEmitter B em"
  shows "\<exists>h' r. recentreEmitter rt h em dx dy = (h', Value r) \<and> emitterShifted rt B h' dx dy em r"
proof -
  from assms(2) obtain fs where fs: "cellOf B em = Some (Obj fs)"
    by (auto simp: wellFormedEmitter_def split: option.splits cell.splits)
  from assms(2) obtain xy where xy: "pointAt B (propOf B em ''position'') = Some xy"
    by (auto simp: wellFormedEmitter_def)
  from assms(2) obtain t where t: "propOf B em ''type'' = RStr t" "t \<notin> set objectPrototypeNames"
    and sh: "case map_of ABSOLUTE_COORD_TYPES t of
               Some fieldNames \<Rightarrow> list_all (\<lambda>f. shiftable B (propOf B em f)) fieldNames | None \<Rightarrow> True"
    by (auto simp: wellFormedEmitter_def split: rval.splits)
  define u where "u = length h"
  define h1 where "h1 = h @ [Obj fs]"
  have ch: "cellOf h em = Some (Obj fs)" using assms(1) fs by (rule cellOf_extends)
  have b1: "extends B h1" unfolding h1_def using assms(1) extends_append by (rule extends_trans)
  have pos1: "propOf h1 em ''position'' = propOf B em ''position''"
    using b1 fs by (rule propOf_base)
  have "pointAt h1 (propOf B em ''position'') = Some xy"
    using b1 xy by (rule pointAt_extends)
  then obtain h2 p where sp: "shiftPoint rt h1 (propOf B em ''position'') dx dy = (h2, Value p)"
    using shiftPoint_progress [of h1 "propOf B em ''position''" xy rt dx dy] by blast
  have p: "p = RRef (Suc u)" "length h2 = Suc (Suc u)" "pointAt h2 p = Some (shiftBy rt dx dy xy)"
    using shiftPoint_Value_ref [OF sp]
      shiftPoint_Value_point [OF sp \<open>pointAt h1 (propOf B em ''position'') = Some xy\<close>]
    by (auto simp: h1_def u_def)
  have e12: "extends h1 h2" using sp by (rule shiftPoint_extends)
  have u2: "u < length h2" "h2 ! u = Obj fs"
    using e12 by (auto simp: extends_def h1_def u_def nth_append)
  define gs3 where "gs3 = AList.update ''position'' p fs"
  define h3 where "h3 = setProp h2 u ''position'' p"
  have eq3: "h3 = h2[u := Obj gs3]" unfolding h3_def gs3_def using u2 by (rule setProp_cell)
  have u3: "u < length h3" "h3 ! u = Obj gs3" using u2 by (simp_all add: eq3)
  have ex23: "extendsExcept u h2 h3" unfolding h3_def by (rule setProp_except)
  have lenB: "length B \<le> u" unfolding u_def using assms(1) by (rule extends_length)
  have b2: "extends B h2" using b1 e12 by (rule extends_trans)
  have b3: "extends B h3" using b2 ex23 lenB by (rule except_above)
  have p3: "pointAt h3 p = Some (shiftBy rt dx dy xy)"
    using ex23 p(3) by (rule pointAt_except) (simp add: p(1))
  have ty3: "propOf h3 em ''type'' = RStr t" using propOf_base [OF b3 fs] t(1) by simp
  have cf: "coordFieldsOf rt h3 (propOf h3 em ''type'') = Value (map_of ABSOLUTE_COORD_TYPES t)"
    unfolding ty3 using t(2) by (rule coordFieldsOf_string)
  have run: "recentreEmitter rt h em dx dy =
     (case map_of ABSOLUTE_COORD_TYPES t of
        None \<Rightarrow> (h3, Value (RRef u))
      | Some fieldNames \<Rightarrow>
          (case shiftFields rt h3 u em fieldNames dx dy of
             (h4, Value _) \<Rightarrow> (h4, Value (RRef u))
           | (h4, Throws e) \<Rightarrow> (h4, Throws e)))"
    unfolding recentreEmitter_def h3_def u_def
    using ch sp [unfolded h1_def] cf [unfolded h3_def u_def]
    by (simp add: alloc_def pos1 [unfolded h1_def] Let_def split: option.splits)
  show ?thesis
  proof (cases "map_of ABSOLUTE_COORD_TYPES t")
    case None
    then have other: "t \<noteq> ''line''" "t \<noteq> ''path''" by (auto simp: table_cases split: if_splits)
    have r: "recentreEmitter rt h em dx dy = (h3, Value (RRef u))" using run None by simp
    have c3: "cellOf h3 (RRef u) = Some (Obj gs3)" using u3 by simp
    have "propOf h3 (RRef u) ''position'' = p"
      by (simp add: propOf_def c3 gs3_def update_conv' del: cellOf.simps)
    then have "translated rt B h3 dx dy (propOf B em ''position'') (propOf h3 (RRef u) ''position'')"
      using xy p3 by (simp add: translated_def)
    then have "emitterShifted rt B h3 dx dy em (RRef u)"
      unfolding emitterShifted_def using t(1) other fs c3 by (auto simp: gs3_def simp del: cellOf.simps)
    then show ?thesis using r by blast
  next
    case (Some fieldNames)
    then have tf: "(t = ''line'' \<and> fieldNames = [''start'', ''end''])
                 \<or> (t = ''path'' \<and> fieldNames = [''path'', ''points''])"
      by (auto simp: table_cases split: if_splits)
    then have d: "distinct fieldNames" and np: "''position'' \<notin> set fieldNames" by auto
    have wf: "\<forall>f \<in> set fieldNames. shiftable B (propOf B em f)"
      using sh Some by (simp add: list_all_iff)
    from shiftFields_values [OF b3 fs wf d u3(1) lenB u3(2)]
    obtain h4 gs4 where sfs: "shiftFields rt h3 u em fieldNames dx dy = (h4, Value ())"
      and ex34: "extendsExcept u h3 h4" and c4: "h4 ! u = Obj gs4"
      and m4: "\<forall>k. k \<notin> set fieldNames \<longrightarrow> map_of gs4 k = map_of gs3 k"
      and f4: "\<forall>f \<in> set fieldNames. fieldShifted rt B (Suc u) h4 dx dy (propOf B em f) (map_of gs4 f)"
      by blast
    have r: "recentreEmitter rt h em dx dy = (h4, Value (RRef u))" using run Some sfs by simp
    have len4: "u < length h4" using u3(1) extendsExcept_length [OF ex34] by simp
    have cell4: "cellOf h4 (RRef u) = Some (Obj gs4)" using c4 len4 by simp
    have prop4: "propOf h4 (RRef u) k = (case map_of gs4 k of Some w \<Rightarrow> w | None \<Rightarrow> RUndefined)"
      for k
      by (simp add: propOf_def cell4 del: cellOf.simps)
    have "map_of gs4 ''position'' = Some p" using m4 np by (simp add: gs3_def update_conv')
    then have pp: "propOf h4 (RRef u) ''position'' = p" by (simp add: prop4)
    have p4: "pointAt h4 p = Some (shiftBy rt dx dy xy)"
      using ex34 p3 by (rule pointAt_except) (simp add: p(1))
    have tpos: "translated rt B h4 dx dy (propOf B em ''position'') (propOf h4 (RRef u) ''position'')"
      using xy p4 by (simp add: translated_def pp)
    have pt: "translated rt B h4 dx dy (propOf B em f) (propOf h4 (RRef u) f)"
      if "f \<in> set fieldNames" "pointAt B (propOf B em f) \<noteq> None" for f
    proof -
      from that(2) obtain q where q: "pointAt B (propOf B em f) = Some q" by auto
      with f4 that(1) obtain w where "map_of gs4 f = Some w" "pointAt h4 w = Some (shiftBy rt dx dy q)"
        unfolding fieldShifted_def by blast
      then show ?thesis using q by (simp add: translated_def prop4)
    qed
    have ar: "\<exists>qs. cellOf h4 (propOf h4 (RRef u) f) = Some (Arr qs)
                 \<and> list_all2 (translated rt B h4 dx dy) ps qs"
      if "f \<in> set fieldNames" "cellOf B (propOf B em f) = Some (Arr ps)" for f ps
    proof -
      from f4 that obtain w qs where "map_of gs4 f = Some w" "cellOf h4 w = Some (Arr qs)"
        "list_all2 (translated rt B h4 dx dy) ps qs"
        unfolding fieldShifted_def by blast
      then show ?thesis by (auto simp: prop4)
    qed
    have "emitterShifted rt B h4 dx dy em (RRef u)"
      unfolding emitterShifted_def using tpos pt ar tf t(1) by auto
    then show ?thesis using r by blast
  qed
qed

lemma propOf_defined: "propOf h r k \<noteq> RUndefined \<Longrightarrow> \<exists>c. cellOf h r = Some c"
  by (auto simp: propOf_def split: option.splits)

lemma pointAt_undefined: "pointAt h RUndefined = None"
  by (simp add: pointAt_def propOf_def)

lemma emitterShifted_extends:
  assumes "emitterShifted rt B h1 dx dy e r" and "extends h1 h2"
  shows "emitterShifted rt B h2 dx dy e r"
proof -
  have "translated rt B h1 dx dy (propOf B e ''position'') (propOf h1 r ''position'')"
    using assms(1) by (simp add: emitterShifted_def)
  then have "propOf h1 r ''position'' \<noteq> RUndefined"
    using pointAt_undefined [of h1] by (auto simp: translated_def)
  then obtain c where c: "cellOf h1 r = Some c" using propOf_defined by blast
  have pr: "propOf h2 r k = propOf h1 r k" for k using assms(2) c by (rule propOf_extends)
  have c2: "cellOf h2 r = Some c" using assms(2) c by (rule cellOf_extends)
  have tr: "translated rt B h2 dx dy p q" if "translated rt B h1 dx dy p q" for p q
    using that assms(2) by (rule translated_extends)
  have ar: "\<exists>qs. cellOf h2 w = Some (Arr qs) \<and> list_all2 (translated rt B h2 dx dy) ps qs"
    if "\<exists>qs. cellOf h1 w = Some (Arr qs) \<and> list_all2 (translated rt B h1 dx dy) ps qs" for w ps
  proof -
    from that obtain qs where qs: "cellOf h1 w = Some (Arr qs)"
      "list_all2 (translated rt B h1 dx dy) ps qs" by blast
    have "cellOf h2 w = Some (Arr qs)" using assms(2) qs(1) by (rule cellOf_extends)
    moreover have "list_all2 (translated rt B h2 dx dy) ps qs"
      using qs(2) tr by (auto elim: list_all2_mono)
    ultimately show ?thesis by blast
  qed
  show ?thesis
    using assms(1) unfolding emitterShifted_def pr c2 c
    by (intro conjI impI ballI allI) (auto intro: tr ar)
qed

lemma recentreEach_values:
  assumes "extends B h" and "\<forall>e \<in> set es. wellFormedEmitter B e"
  shows "\<exists>h' rs. recentreEach rt h es dx dy = (h', Value rs)
           \<and> list_all2 (emitterShifted rt B h' dx dy) es rs"
  using assms
proof (induction es arbitrary: h)
  case Nil
  then show ?case by simp
next
  case (Cons e es)
  have "wellFormedEmitter B e" using Cons.prems(2) by simp
  from recentreEmitter_values [OF Cons.prems(1) this]
  obtain h1 r where re: "recentreEmitter rt h e dx dy = (h1, Value r)"
    "emitterShifted rt B h1 dx dy e r" by blast
  have b1: "extends B h1"
    using Cons.prems(1) recentreEmitter_frame [OF re(1)] by (blast intro: extends_trans)
  from Cons.IH [OF b1] Cons.prems(2)
  obtain h2 rs where rest: "recentreEach rt h1 es dx dy = (h2, Value rs)"
    "list_all2 (emitterShifted rt B h2 dx dy) es rs" by auto
  have "extends h1 h2" using recentreEach_frame [OF rest(1) b1] by blast
  then have "emitterShifted rt B h2 dx dy e r" using re(2) by (rule emitterShifted_extends [rotated])
  then show ?case using re(1) rest by simp
qed

text \<open>
  C4. Shift semantics. The specification states them for every emitter list, and so
  stated they do not hold of the code: the function relies on the declared type of its
  argument. A path emitter whose \<open>path\<close> holds a point with a string for \<open>x\<close> comes back
  with the string \<open>'10100'\<close> there, which is no translation of the element. And an
  emitter whose \<open>type\<close> is \<open>constructor\<close> makes the call throw, the lookup in the table
  finding what the table inherits, where every field but the position was to be
  unchanged.

  What holds: for a list of emitters of the declared type (each a \<open>wellFormedEmitter\<close>:
  an object with a numeric position, a type that names nothing inherited from
  \<open>Object.prototype\<close>, and points where the loop shifts its coordinate fields) and
  dimensions with \<open>dx\<close>, \<open>dy\<close> not both zero, the function returns a list with, for each
  emitter in order, an object whose position is the emitter's translated by \<open>(dx, dy)\<close>;
  for a line, \<open>start\<close> and \<open>end\<close>, where they are points, are translated by \<open>(dx, dy)\<close>;
  for a path, every element of the arrays \<open>path\<close> and \<open>points\<close> is translated by
  \<open>(dx, dy)\<close>; for any other type, every property other than the position is the
  emitter's own, unchanged (\<open>emitterShifted\<close>). The sums are those of the runtime, the
  sums of doubles in JavaScript. The store before the call is unchanged, so an unchanged
  property such as the \<open>vertices\<close> of a polygon denotes an unchanged object.
\<close>

theorem recentre_shift:
  assumes "\<not> (numIsZero rt (centreShift rt oldWidth newWidth)
              \<and> numIsZero rt (centreShift rt oldHeight newHeight))"
    and "cellOf h emitterList = Some (Arr es)"
    and "\<forall>e \<in> set es. wellFormedEmitter h e"
  shows "\<exists>h' r rs.
           recentreEmittersOnResize rt h emitterList oldWidth oldHeight newWidth newHeight
             = (h', Value r)
           \<and> extends h h' \<and> cellOf h' r = Some (Arr rs)
           \<and> list_all2
                (emitterShifted rt h h' (centreShift rt oldWidth newWidth)
                   (centreShift rt oldHeight newHeight))
                es rs"
proof (cases "es = []")
  case True
  then have "recentreEmittersOnResize rt h emitterList oldWidth oldHeight newWidth newHeight
             = (h, Value emitterList)"
    using assms(2) by (cases emitterList) (auto simp: recentreEmittersOnResize_def Let_def)
  then show ?thesis using assms(2) True by (auto simp: extends_refl)
next
  case False
  define dx where "dx = centreShift rt oldWidth newWidth"
  define dy where "dy = centreShift rt oldHeight newHeight"
  from recentreEach_values [OF extends_refl assms(3)]
  obtain h1 rs where each: "recentreEach rt h es dx dy = (h1, Value rs)"
    "list_all2 (emitterShifted rt h h1 dx dy) es rs" by blast
  define h' where "h' = h1 @ [Arr rs]"
  have run: "recentreEmittersOnResize rt h emitterList oldWidth oldHeight newWidth newHeight
             = (h', Value (RRef (length h1)))"
    using assms(1,2) False each(1)
    by (cases emitterList)
       (auto simp: recentreEmittersOnResize_def Let_def alloc_def h'_def dx_def dy_def
          centreShift_def)
  have e1: "extends h h1" using recentreEach_frame [OF each(1) extends_refl] by blast
  have e12: "extends h1 h'" unfolding h'_def by (rule extends_append)
  have "list_all2 (emitterShifted rt h h' dx dy) es rs"
    using each(2) emitterShifted_extends [OF _ e12] by (auto elim: list_all2_mono)
  moreover have "cellOf h' (RRef (length h1)) = Some (Arr rs)" by (simp add: h'_def)
  moreover have "extends h h'" using e1 e12 by (rule extends_trans)
  ultimately show ?thesis using run unfolding dx_def dy_def by blast
qed

theorem recentre_shift_witness:
  "recentreEmittersOnResize (exampleRuntime []) exampleStore (RRef 9) 800 600 1000 800
     = (exampleStoreResized, Value (RRef 16))
   \<and> list_all2 (emitterShifted (exampleRuntime []) exampleStore exampleStoreResized 100 100)
       [RRef 3, RRef 8] [RRef 10, RRef 14]"
proof -
  have run: "recentreEmittersOnResize (exampleRuntime []) exampleStore (RRef 9) 800 600 1000 800
             = (exampleStoreResized, Value (RRef 16))"
    by code_simp
  have wf: "\<forall>e \<in> set [RRef 3, RRef 8]. wellFormedEmitter exampleStore e"
    by code_simp
  have arr: "cellOf exampleStore (RRef 9) = Some (Arr [RRef 3, RRef 8])"
    by (simp add: exampleStore_def)
  have out: "cellOf exampleStoreResized (RRef 16) = Some (Arr [RRef 10, RRef 14])"
    by (simp add: exampleStoreResized_def exampleStore_def)
  have dx: "centreShift (exampleRuntime []) 800 1000 = 100"
    and dy: "centreShift (exampleRuntime []) 600 800 = 100"
    by (simp_all add: centreShift_def exampleRuntime_def)
  have d: "\<not> (numIsZero (exampleRuntime []) (centreShift (exampleRuntime []) 800 1000)
              \<and> numIsZero (exampleRuntime []) (centreShift (exampleRuntime []) 600 800))"
    unfolding dx by (simp add: exampleRuntime_def)
  from recentre_shift [OF d arr wf] run out
  show ?thesis unfolding dx dy by auto
qed

text \<open>
  The two runs where the shift semantics fail. Both emitters pass the import filter and
  the validator without an error, and the stores hold their lists. With \<open>'10' + 100\<close>
  the string \<open>'10100'\<close>, the path emitter comes back with the point at cell 9 in its
  path, which is no translation of the point at cell 3. And the emitter of type
  \<open>constructor\<close> makes the call throw.
\<close>

theorem recentre_shift_counterexample:
  "isEmitterConfig textPathEmitter
   \<and> validateEditorConfig (testConfig textPathEmitter) = Inr \<lparr> valid = True, errors = [] \<rparr>
   \<and> intoStore (JArr [textPathEmitter]) [] = (textPathStore, RRef 6)
   \<and> recentreEmittersOnResize (exampleRuntime [((RStr ''10'', 100), RStr ''10100'')])
        textPathStore (RRef 6) 800 600 1000 800
       = (textPathStoreResized, Value (RRef 11))
   \<and> cellOf textPathStoreResized (RRef 11) = Some (Arr [RRef 7])
   \<and> cellOf textPathStoreResized (propOf textPathStoreResized (RRef 7) ''path'')
       = Some (Arr [RRef 9])
   \<and> cellOf textPathStore (propOf textPathStore (RRef 5) ''path'') = Some (Arr [RRef 3])
   \<and> \<not> translated (exampleRuntime [((RStr ''10'', 100), RStr ''10100'')])
         textPathStore textPathStoreResized 100 100 (RRef 3) (RRef 9)
   \<and> isEmitterConfig constructorEmitter
   \<and> validateEditorConfig (testConfig constructorEmitter) = Inr \<lparr> valid = True, errors = [] \<rparr>
   \<and> intoStore (JArr [constructorEmitter]) [] = (constructorStore, RRef 4)
   \<and> snd (recentreEmittersOnResize (exampleRuntime []) constructorStore (RRef 4) 800 600 1000 800)
       = Throws TypeError"
proof -
  have path: "isEmitterConfig textPathEmitter"
    "validateEditorConfig (testConfig textPathEmitter) = Inr \<lparr> valid = True, errors = [] \<rparr>"
    "intoStore (JArr [textPathEmitter]) [] = (textPathStore, RRef 6)"
    by code_simp+
  have run: "recentreEmittersOnResize (exampleRuntime [((RStr ''10'', 100), RStr ''10100'')])
      textPathStore (RRef 6) 800 600 1000 800
     = (textPathStoreResized, Value (RRef 11))"
    by code_simp
  have cells: "cellOf textPathStoreResized (RRef 11) = Some (Arr [RRef 7])"
    "cellOf textPathStoreResized (propOf textPathStoreResized (RRef 7) ''path'')
       = Some (Arr [RRef 9])"
    "cellOf textPathStore (propOf textPathStore (RRef 5) ''path'') = Some (Arr [RRef 3])"
    by code_simp+
  have "pointAt textPathStore (RRef 3) = None" by code_simp
  then have no: "\<not> translated (exampleRuntime [((RStr ''10'', 100), RStr ''10100'')])
         textPathStore textPathStoreResized 100 100 (RRef 3) (RRef 9)"
    by (simp add: translated_def)
  have ctor: "isEmitterConfig constructorEmitter"
    "validateEditorConfig (testConfig constructorEmitter) = Inr \<lparr> valid = True, errors = [] \<rparr>"
    "intoStore (JArr [constructorEmitter]) [] = (constructorStore, RRef 4)"
    by code_simp+
  have throws: "snd (recentreEmittersOnResize (exampleRuntime []) constructorStore (RRef 4)
                       800 600 1000 800) = Throws TypeError"
    by code_simp
  show ?thesis using path run cells no ctor throws by (intro conjI)
qed

theorem recentre_identity_witness:
  "recentreEmittersOnResize (exampleRuntime []) exampleStore (RRef 9) 800 600 800 600
     = (exampleStore, Value (RRef 9))
   \<and> recentreEmittersOnResize (exampleRuntime []) [Arr []] (RRef 0) 800 600 1000 800
     = ([Arr []], Value (RRef 0))"
proof -
  have zero: "numIsZero (exampleRuntime []) (centreShift (exampleRuntime []) 800 800)
            \<and> numIsZero (exampleRuntime []) (centreShift (exampleRuntime []) 600 600)"
    by (simp add: centreShift_def exampleRuntime_def)
  have empty: "cellOf [Arr []] (RRef 0) = Some (Arr [])" by simp
  show ?thesis
    using recentre_identity [of "exampleRuntime []" 800 800 600 600 exampleStore "RRef 9"]
      recentre_identity [of "exampleRuntime []" 800 1000 600 800 "[Arr []]" "RRef 0"]
      zero empty
    by blast
qed

theorem recentre_no_mutation_witness:
  "extends exampleStore exampleStoreResized
   \<and> list_all2 (freshCopy exampleStore exampleStoreResized) [RRef 3, RRef 8] [RRef 10, RRef 14]
   \<and> extends textPathStore textPathStoreResized
   \<and> list_all2 (freshCopy textPathStore textPathStoreResized) [RRef 5] [RRef 7]"
proof -
  have run: "recentreEmittersOnResize (exampleRuntime []) exampleStore (RRef 9) 800 600 1000 800
             = (exampleStoreResized, Value (RRef 16))"
    by code_simp
  have arr: "cellOf exampleStore (RRef 9) = Some (Arr [RRef 3, RRef 8])"
    by (simp add: exampleStore_def)
  have out: "cellOf exampleStoreResized (RRef 16) = Some (Arr [RRef 10, RRef 14])"
    by (simp add: exampleStoreResized_def exampleStore_def)
  have old: "\<forall>e \<in> set [RRef 3, RRef 8]. \<not> isFresh exampleStore e"
    by (simp add: isFresh_def exampleStore_def)
  have run2: "recentreEmittersOnResize (exampleRuntime [((RStr ''10'', 100), RStr ''10100'')])
      textPathStore (RRef 6) 800 600 1000 800
     = (textPathStoreResized, Value (RRef 11))"
    by code_simp
  have arr2: "cellOf textPathStore (RRef 6) = Some (Arr [RRef 5])"
    by (simp add: textPathStore_def)
  have out2: "cellOf textPathStoreResized (RRef 11) = Some (Arr [RRef 7])"
    by (simp add: textPathStoreResized_def textPathStore_def)
  have old2: "\<forall>e \<in> set [RRef 5]. \<not> isFresh textPathStore e"
    by (simp add: isFresh_def textPathStore_def)
  have first: "extends exampleStore exampleStoreResized
     \<and> list_all2 (freshCopy exampleStore exampleStoreResized) [RRef 3, RRef 8] [RRef 10, RRef 14]"
    using recentre_no_mutation [OF run] arr out old by auto
  have second: "extends textPathStore textPathStoreResized
     \<and> list_all2 (freshCopy textPathStore textPathStoreResized) [RRef 5] [RRef 7]"
    using recentre_no_mutation [OF run2] arr2 out2 old2 by auto
  show ?thesis using first second by blast
qed

end
